theory Spec2Isabelle
  imports Complex_Main "HOL-Library.Word" "HOL-Library.Sublist"
begin

section \<open>JavaScript strings\<close>

text \<open>
  A JavaScript string is a sequence of 16-bit code units. \<open>js\<close> turns an ASCII literal
  into such a sequence, so that the texts of the source can be written as they are.
\<close>

type_synonym code_unit = "16 word"
type_synonym jsstring = "code_unit list"

definition js :: "string \<Rightarrow> jsstring" where
  "js s = map of_char s"

definition nl :: code_unit where
  "nl = 10"

definition bt :: code_unit where
  "bt = 96"

text \<open>The three backticks of a Markdown fence, and the fence with its language tag.\<close>

definition fence :: jsstring where
  "fence = [bt, bt, bt]"

definition lang_json :: jsstring where
  "lang_json = js ''json''"

definition fence_json :: jsstring where
  "fence_json = fence @ lang_json"

text \<open>
  \<open>String.prototype.trim\<close> removes WhiteSpace and LineTerminator code units from both
  ends: TAB, LF, VT, FF, CR, SP, NBSP, U+1680, U+2000 to U+200A, U+2028, U+2029, U+202F,
  U+205F, U+3000 and U+FEFF.
\<close>

definition is_white_space :: "code_unit \<Rightarrow> bool" where
  "is_white_space c \<longleftrightarrow>
     c = 9 \<or> c = 10 \<or> c = 11 \<or> c = 12 \<or> c = 13 \<or> c = 32 \<or> c = 160 \<or> c = 5760 \<or>
     (8192 \<le> c \<and> c \<le> 8202) \<or> c = 8232 \<or> c = 8233 \<or> c = 8239 \<or> c = 8287 \<or>
     c = 12288 \<or> c = 65279"

definition trim :: "jsstring \<Rightarrow> jsstring" where
  "trim s = rev (dropWhile is_white_space (rev (dropWhile is_white_space s)))"

text \<open>\<open>s.includes(p)\<close>: \<open>p\<close> occurs in \<open>s\<close> as a contiguous substring.\<close>

fun includes_str :: "jsstring \<Rightarrow> jsstring \<Rightarrow> bool" where
  "includes_str p [] = (p = [])"
| "includes_str p (c # cs) = (prefix p (c # cs) \<or> includes_str p cs)"

text \<open>
  \<open>s.replace(/p/g, '')\<close> for a literal, non-empty pattern \<open>p\<close>: the matches are found
  from left to right, each search resuming behind the previous match.
\<close>

fun delete_all :: "jsstring \<Rightarrow> jsstring \<Rightarrow> jsstring" where
  "delete_all p [] = []"
| "delete_all p (c # cs) =
     (if p \<noteq> [] \<and> prefix p (c # cs) then delete_all p (drop (length p - 1) cs)
      else c # delete_all p cs)"

text \<open>\<open>s.split('\n')\<close>: the pieces between line feeds; the empty string gives one empty piece.\<close>

fun split_lines :: "jsstring \<Rightarrow> jsstring list" where
  "split_lines [] = [[]]"
| "split_lines (c # cs) =
     (if c = nl then [] # split_lines cs
      else (case split_lines cs of [] \<Rightarrow> [[c]] | l # ls \<Rightarrow> (c # l) # ls))"

text \<open>\<open>lines.join('\n')\<close>.\<close>

fun join_lines :: "jsstring list \<Rightarrow> jsstring" where
  "join_lines [] = []"
| "join_lines [l] = l"
| "join_lines (l # ls) = l @ nl # join_lines ls"

section \<open>Cleaning the response text\<close>

text \<open>
  src/src/prd_parser.js, lines 66, 129 and 201:
  \<^verbatim>\<open>jsonResponse.replace(/```json/g, '').replace(/```/g, '').trim()\<close>
\<close>

definition clean_orig :: "jsstring \<Rightarrow> jsstring" where
  "clean_orig s = trim (delete_all fence (delete_all fence_json s))"

text \<open>
  src/unnamed/part_000, lines 77, 154 and 260:
  \<^verbatim>\<open>jsonResponse.replace(/```(?:json)?\n([\s\S]*?)\n```/g, '$1').trim()\<close>

  \<open>find_close\<close> is the lazy group followed by the closing line feed and fence: it returns
  the shortest captured text and the number of code units the match consumes from there.
  \<open>match_tail\<close> is the part of the expression behind the optional language tag, and
  \<open>match_fence\<close> the whole expression tried at the start of a string: the tag is tried
  first and, when the rest fails behind it, the expression is tried again without it.
\<close>

fun find_close :: "jsstring \<Rightarrow> (jsstring \<times> nat) option" where
  "find_close [] = None"
| "find_close (c # cs) =
     (if prefix (nl # fence) (c # cs) then Some ([], 4)
      else (case find_close cs of None \<Rightarrow> None | Some (b, n) \<Rightarrow> Some (c # b, Suc n)))"

definition match_tail :: "jsstring \<Rightarrow> (jsstring \<times> nat) option" where
  "match_tail r =
     (case r of [] \<Rightarrow> None
      | c # rest \<Rightarrow>
          if c = nl then (case find_close rest of None \<Rightarrow> None | Some (b, n) \<Rightarrow> Some (b, Suc n))
          else None)"

definition match_fence :: "jsstring \<Rightarrow> (jsstring \<times> nat) option" where
  "match_fence s =
     (if prefix fence s then
        (let r = drop 3 s in
         case (if prefix lang_json r then match_tail (drop 4 r) else None) of
           Some (b, n) \<Rightarrow> Some (b, 7 + n)
         | None \<Rightarrow> (case match_tail r of None \<Rightarrow> None | Some (b, n) \<Rightarrow> Some (b, 3 + n)))
      else None)"

text \<open>
  The global replacement by \<open>$1\<close>: each match is replaced by its captured text and the
  search resumes behind the match; a code unit where nothing matches is kept.
\<close>

fun replace_fences :: "jsstring \<Rightarrow> jsstring" where
  "replace_fences [] = []"
| "replace_fences (c # cs) =
     (case match_fence (c # cs) of
        Some (b, n) \<Rightarrow> b @ replace_fences (drop (n - 1) cs)
      | None \<Rightarrow> c # replace_fences cs)"

definition clean_enh :: "jsstring \<Rightarrow> jsstring" where
  "clean_enh s = trim (replace_fences s)"

section \<open>JavaScript values\<close>

text \<open>
  The values the three functions handle: what \<open>JSON.parse\<close> and the HTTP client return,
  and \<open>undefined\<close>, the value of a property that is not there. An object is the list of
  its own properties.
\<close>

datatype jsval =
    JUndefined
  | JNull
  | JBool bool
  | JNum rat
  | JStr jsstring
  | JArr "jsval list"
  | JObj "(jsstring \<times> jsval) list"

datatype exn = TypeError | SyntaxError | Error | FsError | HttpError

fun truthy :: "jsval \<Rightarrow> bool" where
  "truthy JUndefined = False"
| "truthy JNull = False"
| "truthy (JBool b) = b"
| "truthy (JNum n) = (n \<noteq> 0)"
| "truthy (JStr s) = (s \<noteq> [])"
| "truthy (JArr xs) = True"
| "truthy (JObj kvs) = True"

text \<open>\<open>typeof v === 'object'\<close> holds of objects, arrays and \<open>null\<close>.\<close>

fun typeof_object :: "jsval \<Rightarrow> bool" where
  "typeof_object JNull = True"
| "typeof_object (JArr xs) = True"
| "typeof_object (JObj kvs) = True"
| "typeof_object v = False"

fun typeof_string :: "jsval \<Rightarrow> bool" where
  "typeof_string (JStr s) = True"
| "typeof_string v = False"

text \<open>
  \<open>v.k\<close> for the property names the source reads (\<open>candidates\<close>, \<open>content\<close>,
  \<open>parts\<close>, \<open>text\<close>, \<open>title\<close>, \<open>id\<close>, \<open>description\<close>, \<open>status\<close>, \<open>priority\<close>,
  \<open>dependsOn\<close>), none of which is a property of a string, number, boolean or array:
  reading a property of \<open>undefined\<close> or \<open>null\<close> throws a TypeError, an object gives its
  property or \<open>undefined\<close>, every other value gives \<open>undefined\<close>.
\<close>

fun member :: "jsstring \<Rightarrow> jsval \<Rightarrow> exn + jsval" where
  "member k JUndefined = Inl TypeError"
| "member k JNull = Inl TypeError"
| "member k (JObj kvs) = Inr (case map_of kvs k of None \<Rightarrow> JUndefined | Some v \<Rightarrow> v)"
| "member k v = Inr JUndefined"

text \<open>\<open>v[0]\<close>: the first element of an array, the first code unit of a string, the
  property \<open>"0"\<close> of an object.\<close>

fun index0 :: "jsval \<Rightarrow> exn + jsval" where
  "index0 JUndefined = Inl TypeError"
| "index0 JNull = Inl TypeError"
| "index0 (JArr xs) = Inr (case xs of [] \<Rightarrow> JUndefined | x # _ \<Rightarrow> x)"
| "index0 (JStr s) = Inr (case s of [] \<Rightarrow> JUndefined | c # _ \<Rightarrow> JStr [c])"
| "index0 (JObj kvs) = Inr (case map_of kvs (js ''0'') of None \<Rightarrow> JUndefined | Some v \<Rightarrow> v)"
| "index0 v = Inr JUndefined"

text \<open>Calling a string method such as \<open>replace\<close> on a value that is not a string throws.\<close>

fun string_receiver :: "jsval \<Rightarrow> exn + jsstring" where
  "string_receiver (JStr s) = Inr s"
| "string_receiver v = Inl TypeError"

text \<open>\<open>xs.every(cb)\<close> stops at the first element the callback rejects; an exception of
  the callback leaves the loop. \<open>xs.map(cb)\<close> likewise.\<close>

fun every :: "(jsval \<Rightarrow> exn + bool) \<Rightarrow> jsval list \<Rightarrow> exn + bool" where
  "every cb [] = Inr True"
| "every cb (x # xs) =
     (case cb x of Inl e \<Rightarrow> Inl e | Inr b \<Rightarrow> if b then every cb xs else Inr False)"

fun map_js :: "(jsval \<Rightarrow> exn + jsval) \<Rightarrow> jsval list \<Rightarrow> exn + jsval list" where
  "map_js cb [] = Inr []"
| "map_js cb (x # xs) =
     (case cb x of Inl e \<Rightarrow> Inl e
      | Inr y \<Rightarrow> (case map_js cb xs of Inl e \<Rightarrow> Inl e | Inr ys \<Rightarrow> Inr (y # ys)))"

section \<open>Values in template literals\<close>

text \<open>
  \<open>`${v}`\<close>: the string a template literal makes of a value. A string stands for
  itself, \<open>undefined\<close>, \<open>null\<close> and the booleans for their names, an object for
  \<open>[object Object]\<close>, an array for its elements joined by commas, where \<open>undefined\<close> and
  \<open>null\<close> elements give the empty string. How a number prints is left to the built-in
  \<open>Number.prototype.toString\<close>, the parameter \<open>num\<close>.
\<close>

fun join_commas :: "jsstring list \<Rightarrow> jsstring" where
  "join_commas [] = []"
| "join_commas [l] = l"
| "join_commas (l # ls) = l @ 44 # join_commas ls"

fun to_string :: "(rat \<Rightarrow> jsstring) \<Rightarrow> jsval \<Rightarrow> jsstring"
  and to_strings :: "(rat \<Rightarrow> jsstring) \<Rightarrow> jsval list \<Rightarrow> jsstring list" where
  "to_string num JUndefined = js ''undefined''"
| "to_string num JNull = js ''null''"
| "to_string num (JBool b) = (if b then js ''true'' else js ''false'')"
| "to_string num (JNum n) = num n"
| "to_string num (JStr s) = s"
| "to_string num (JArr xs) = join_commas (to_strings num xs)"
| "to_string num (JObj kvs) = js ''[object Object]''"
| "to_strings num [] = []"
| "to_strings num (x # xs) =
     (if x = JUndefined \<or> x = JNull then [] else to_string num x) # to_strings num xs"

section \<open>The environment, and computations with effects\<close>

text \<open>
  What is sent to the text-generation service. The prompts are fixed templates around the
  values interpolated into them; the request records those values: the content of the
  document; the title of the parent task and its description or \<open>N/A\<close>; the change
  prompt, the \<open>id\<close>, \<open>title\<close> and \<open>status\<close> of each past task, and the object made of
  each future task.
\<close>

datatype request =
    PrdPrompt jsstring
  | ExpandPrompt jsval jsval
  | RevisePrompt jsval "jsval list" "jsval list"

datatype http_outcome = HttpFails | HttpResponse jsval

text \<open>
  Everything outside the three functions: the credential read from the process environment
  when the module is loaded, the file system, the remote service, the clock, and the
  built-ins \<open>JSON.parse\<close> (\<open>None\<close> when it throws), \<open>JSON.stringify\<close> and
  \<open>Number.prototype.toString\<close>.
  \<open>env_write_ok path content\<close> tells whether writing \<open>content\<close> to \<open>path\<close> succeeds;
  \<open>env_clock n\<close> is what \<open>new Date().toISOString()\<close> returns when it is called for the
  \<open>n\<close>-th time.
\<close>

record env =
  env_API_KEY :: "jsstring option"
  env_file :: "jsstring \<Rightarrow> jsstring option"
  env_post :: "request \<Rightarrow> http_outcome"
  env_parse :: "jsstring \<Rightarrow> jsval option"
  env_stringify :: "jsval \<Rightarrow> jsstring"
  env_write_ok :: "jsstring \<Rightarrow> jsstring \<Rightarrow> bool"
  env_clock :: "nat \<Rightarrow> jsstring"
  env_number_string :: "rat \<Rightarrow> jsstring"

datatype level = LError | LInfo | LDebug

text \<open>
  What the functions do to the outside, in order. A log line is recorded with its level,
  not its text. A write that throws is recorded apart from one that completes.
\<close>

datatype event =
    EvLog level
  | EvRead jsstring
  | EvPost request
  | EvWrite jsstring jsstring
  | EvWriteFailed jsstring jsstring

record world =
  events :: "event list"
  ticks :: nat

text \<open>A computation runs in a world and ends with an exception or a value, in a new world.\<close>

type_synonym 'a comp = "world \<Rightarrow> (exn + 'a) \<times> world"

definition js_return :: "'a \<Rightarrow> 'a comp" where
  "js_return x w = (Inr x, w)"

definition js_throw :: "exn \<Rightarrow> 'a comp" where
  "js_throw e w = (Inl e, w)"

definition js_bind :: "'a comp \<Rightarrow> ('a \<Rightarrow> 'b comp) \<Rightarrow> 'b comp" where
  "js_bind m f w = (case m w of (Inl e, w') \<Rightarrow> (Inl e, w') | (Inr x, w') \<Rightarrow> f x w')"

definition js_try :: "'a comp \<Rightarrow> (exn \<Rightarrow> 'a comp) \<Rightarrow> 'a comp" where
  "js_try m h w = (case m w of (Inl e, w') \<Rightarrow> h e w' | (Inr x, w') \<Rightarrow> (Inr x, w'))"

definition js_lift :: "exn + 'a \<Rightarrow> 'a comp" where
  "js_lift r w = (r, w)"

definition emit :: "event \<Rightarrow> unit comp" where
  "emit ev w = (Inr (), w\<lparr>events := events w @ [ev]\<rparr>)"

definition log :: "level \<Rightarrow> unit comp" where
  "log l = emit (EvLog l)"

definition fs_readFileSync :: "env \<Rightarrow> jsstring \<Rightarrow> jsstring comp" where
  "fs_readFileSync env path =
     js_bind (emit (EvRead path))
       (\<lambda>_. case env_file env path of None \<Rightarrow> js_throw FsError | Some c \<Rightarrow> js_return c)"

definition fs_writeFileSync :: "env \<Rightarrow> jsstring \<Rightarrow> jsstring \<Rightarrow> unit comp" where
  "fs_writeFileSync env path content =
     (if env_write_ok env path content then emit (EvWrite path content)
      else js_bind (emit (EvWriteFailed path content)) (\<lambda>_. js_throw FsError))"

definition axios_post :: "env \<Rightarrow> request \<Rightarrow> jsval comp" where
  "axios_post env req =
     js_bind (emit (EvPost req))
       (\<lambda>_. case env_post env req of HttpFails \<Rightarrow> js_throw HttpError
             | HttpResponse d \<Rightarrow> js_return d)"

definition JSON_parse :: "env \<Rightarrow> jsstring \<Rightarrow> jsval comp" where
  "JSON_parse env s = (case env_parse env s of None \<Rightarrow> js_throw SyntaxError | Some v \<Rightarrow> js_return v)"

text \<open>\<^verbatim>\<open>new Date().toISOString().replace(/[:.]/g, '-')\<close>\<close>

definition new_timestamp :: "env \<Rightarrow> jsstring comp" where
  "new_timestamp env w =
     (Inr (map (\<lambda>c. if c = 58 \<or> c = 46 then 45 else c) (env_clock env (ticks w))),
      w\<lparr>ticks := Suc (ticks w)\<rparr>)"

text \<open>\<open>!API_KEY\<close> holds when the variable is unset or empty.\<close>

definition configured :: "env \<Rightarrow> bool" where
  "configured env = (case env_API_KEY env of None \<Rightarrow> False | Some k \<Rightarrow> k \<noteq> [])"

section \<open>Reading the response\<close>

text \<open>
  The test of all three functions, in both files:
  \<^verbatim>\<open>response.data && response.data.candidates && response.data.candidates[0].content
     && response.data.candidates[0].content.parts\<close>
  and the text they take: \<^verbatim>\<open>response.data.candidates[0].content.parts[0].text\<close>.
\<close>

definition has_text_parts :: "jsval \<Rightarrow> exn + bool" where
  "has_text_parts d =
     (if \<not> truthy d then Inr False
      else case member (js ''candidates'') d of Inl e \<Rightarrow> Inl e
        | Inr c \<Rightarrow>
            if \<not> truthy c then Inr False
            else case index0 c of Inl e \<Rightarrow> Inl e
              | Inr c0 \<Rightarrow>
                  (case member (js ''content'') c0 of Inl e \<Rightarrow> Inl e
                   | Inr ct \<Rightarrow>
                       if \<not> truthy ct then Inr False
                       else case member (js ''parts'') ct of Inl e \<Rightarrow> Inl e
                         | Inr p \<Rightarrow> Inr (truthy p)))"

definition first_part_text :: "jsval \<Rightarrow> exn + jsval" where
  "first_part_text d =
     (case member (js ''candidates'') d of Inl e \<Rightarrow> Inl e
      | Inr c \<Rightarrow>
          (case index0 c of Inl e \<Rightarrow> Inl e
           | Inr c0 \<Rightarrow>
               (case member (js ''content'') c0 of Inl e \<Rightarrow> Inl e
                | Inr ct \<Rightarrow>
                    (case member (js ''parts'') ct of Inl e \<Rightarrow> Inl e
                     | Inr p \<Rightarrow>
                         (case index0 p of Inl e \<Rightarrow> Inl e
                          | Inr p0 \<Rightarrow> member (js ''text'') p0)))))"

text \<open>\<open>Array.isArray\<close>, and the elements of an array.\<close>

fun is_array :: "jsval \<Rightarrow> bool" where
  "is_array (JArr xs) = True"
| "is_array v = False"

fun elements :: "jsval \<Rightarrow> jsval list" where
  "elements (JArr xs) = xs"
| "elements v = []"

section \<open>parsePrdWithGemini\<close>

text \<open>
  src/unnamed/part_000, lines 79 to 98: the inner \<open>try\<close> of the enhanced version. The
  backup is written inside it, so a write that throws is caught there as well.
\<close>

definition accept_prd_enh :: "env \<Rightarrow> jsstring \<Rightarrow> jsstring \<Rightarrow> jsval comp" where
  "accept_prd_enh env prdFilePath jsonResponse =
     js_try
       (js_bind (JSON_parse env jsonResponse) (\<lambda>parsedTasks.
          if \<not> is_array parsedTasks then js_throw Error
          else
            js_bind (new_timestamp env) (\<lambda>timestamp.
            js_bind (fs_writeFileSync env
                       (prdFilePath @ js ''.tasks.'' @ timestamp @ js ''.json'')
                       (env_stringify env parsedTasks)) (\<lambda>_.
            js_bind (log LInfo) (\<lambda>_.
            js_bind (log LInfo) (\<lambda>_.
            js_return parsedTasks))))))
       (\<lambda>parseError.
          js_bind (log LError) (\<lambda>_. js_bind (log LDebug) (\<lambda>_. js_return JNull)))"

text \<open>src/unnamed/part_000, lines 9 to 109.\<close>

definition parsePrdWithGemini_enh :: "env \<Rightarrow> jsstring \<Rightarrow> jsval comp" where
  "parsePrdWithGemini_enh env prdFilePath =
     (if \<not> configured env then
        js_bind (log LError) (\<lambda>_. js_bind (log LError) (\<lambda>_. js_return JNull))
      else
        js_bind
          (js_try (js_bind (fs_readFileSync env prdFilePath) (\<lambda>c. js_return (Some c)))
             (\<lambda>error. js_bind (log LError) (\<lambda>_. js_return None)))
          (\<lambda>read. case read of
               None \<Rightarrow> js_return JNull
             | Some prdContent \<Rightarrow>
                 js_bind (log LInfo) (\<lambda>_.
                 js_try
                   (js_bind (axios_post env (PrdPrompt prdContent)) (\<lambda>data.
                    js_bind (js_lift (has_text_parts data)) (\<lambda>ok.
                      if ok then
                        js_bind (js_lift (first_part_text data)) (\<lambda>text.
                        js_bind (js_lift (string_receiver text)) (\<lambda>raw.
                        accept_prd_enh env prdFilePath (clean_enh raw)))
                      else
                        js_bind (log LError) (\<lambda>_.
                        js_bind (log LDebug) (\<lambda>_. js_return JNull)))))
                   (\<lambda>error. js_bind (log LError) (\<lambda>_. js_return JNull)))))"

text \<open>src/src/prd_parser.js, lines 68 to 80 and 8 to 91: the original version.\<close>

definition accept_prd_orig :: "env \<Rightarrow> jsstring \<Rightarrow> jsval comp" where
  "accept_prd_orig env jsonResponse =
     js_try
       (js_bind (JSON_parse env jsonResponse) (\<lambda>parsedTasks.
          if \<not> is_array parsedTasks then js_throw Error
          else js_bind (log LInfo) (\<lambda>_. js_return parsedTasks)))
       (\<lambda>parseError.
          js_bind (log LError) (\<lambda>_. js_bind (log LError) (\<lambda>_. js_return JNull)))"

definition parsePrdWithGemini_orig :: "env \<Rightarrow> jsstring \<Rightarrow> jsval comp" where
  "parsePrdWithGemini_orig env prdFilePath =
     (if \<not> configured env then
        js_bind (log LError) (\<lambda>_. js_bind (log LError) (\<lambda>_. js_return JNull))
      else
        js_bind
          (js_try (js_bind (fs_readFileSync env prdFilePath) (\<lambda>c. js_return (Some c)))
             (\<lambda>error. js_bind (log LError) (\<lambda>_. js_return None)))
          (\<lambda>read. case read of
               None \<Rightarrow> js_return JNull
             | Some prdContent \<Rightarrow>
                 js_bind (log LInfo) (\<lambda>_.
                 js_try
                   (js_bind (axios_post env (PrdPrompt prdContent)) (\<lambda>data.
                    js_bind (js_lift (has_text_parts data)) (\<lambda>ok.
                      if ok then
                        js_bind (js_lift (first_part_text data)) (\<lambda>text.
                        js_bind (js_lift (string_receiver text)) (\<lambda>raw.
                        accept_prd_orig env (clean_orig raw)))
                      else
                        js_bind (log LError) (\<lambda>_.
                        js_bind (log LError) (\<lambda>_. js_return JNull)))))
                   (\<lambda>error. js_bind (log LError) (\<lambda>_. js_return JNull)))))"

section \<open>expandTaskWithGemini\<close>

text \<open>The callback of \<open>every\<close>: \<^verbatim>\<open>sub => typeof sub === 'object' && sub.title\<close>.\<close>

definition has_title :: "jsval \<Rightarrow> exn + bool" where
  "has_title sub =
     (if \<not> typeof_object sub then Inr False
      else case member (js ''title'') sub of Inl e \<Rightarrow> Inl e | Inr t \<Rightarrow> Inr (truthy t))"

text \<open>
  The prompt of an expansion reads \<^verbatim>\<open>parentTask.title\<close> and
  \<^verbatim>\<open>parentTask.description || 'N/A'\<close>. It is built before the outer \<open>try\<close>
  (src/unnamed/part_000, lines 120 to 136; src/src/prd_parser.js, lines 101 to 113), so
  for a \<open>parentTask\<close> that is \<open>undefined\<close> or \<open>null\<close> the TypeError leaves the function.
\<close>

definition expand_request :: "jsval \<Rightarrow> exn + request" where
  "expand_request parentTask =
     (case member (js ''title'') parentTask of Inl e \<Rightarrow> Inl e
      | Inr t \<Rightarrow>
          (case member (js ''description'') parentTask of Inl e \<Rightarrow> Inl e
           | Inr d \<Rightarrow> Inr (ExpandPrompt t (if truthy d then d else JStr (js ''N/A'')))))"

text \<open>
  src/unnamed/part_000, lines 176 to 178:
  \<^verbatim>\<open>jsonResponse.split('\n').map(line => line.trim())
     .filter(line => line && !line.includes('```'))\<close>
\<close>

definition fallback_lines :: "jsstring \<Rightarrow> jsstring list" where
  "fallback_lines jsonResponse =
     filter (\<lambda>line. line \<noteq> [] \<and> \<not> includes_str fence line)
       (map trim (split_lines jsonResponse))"

text \<open>
  src/unnamed/part_000, lines 172 to 190: the \<open>catch\<close> of the strict parse, which is the
  fallback. Its backup is written here, under the outer \<open>try\<close> only; the name of the
  file reads \<^verbatim>\<open>parentTask.id\<close>.
\<close>

definition fallback_subtasks :: "env \<Rightarrow> jsval \<Rightarrow> jsstring \<Rightarrow> jsval comp" where
  "fallback_subtasks env parentTask jsonResponse =
     js_bind (log LError) (\<lambda>_.
     js_bind (log LDebug) (\<lambda>_.
     js_bind (log LInfo) (\<lambda>_.
       if fallback_lines jsonResponse \<noteq> [] then
         js_bind (log LInfo) (\<lambda>_.
         js_bind (new_timestamp env) (\<lambda>timestamp.
         js_bind (js_lift (member (js ''id'') parentTask)) (\<lambda>id.
         js_bind (fs_writeFileSync env
                    (js ''subtasks_fallback_'' @ to_string (env_number_string env) id @ js ''_''
                       @ timestamp @ js ''.txt'')
                    (join_lines (fallback_lines jsonResponse))) (\<lambda>_.
         js_return (JArr (map JStr (fallback_lines jsonResponse)))))))
       else js_return JNull)))"

text \<open>
  src/unnamed/part_000, lines 156 to 191: the strict parse, and the fallback in its
  \<open>catch\<close>. The backup of the strict parse is written inside the \<open>try\<close>.
\<close>

definition accept_subtasks_enh :: "env \<Rightarrow> jsval \<Rightarrow> jsstring \<Rightarrow> jsval comp" where
  "accept_subtasks_enh env parentTask jsonResponse =
     js_try
       (js_bind (JSON_parse env jsonResponse) (\<lambda>parsedSubtasks.
          if \<not> is_array parsedSubtasks then js_throw Error
          else
            js_bind (js_lift (every has_title (elements parsedSubtasks))) (\<lambda>ok.
              if \<not> ok then js_throw Error
              else
                js_bind (new_timestamp env) (\<lambda>timestamp.
                js_bind (js_lift (member (js ''id'') parentTask)) (\<lambda>id.
                js_bind (fs_writeFileSync env
                           (js ''subtasks_'' @ to_string (env_number_string env) id @ js ''_''
                              @ timestamp @ js ''.json'')
                           (env_stringify env parsedSubtasks)) (\<lambda>_.
                js_bind (log LInfo) (\<lambda>_.
                js_bind (log LInfo) (\<lambda>_.
                js_bind (js_lift (map_js (member (js ''title'')) (elements parsedSubtasks)))
                  (\<lambda>titles. js_return (JArr titles))))))))))
       (\<lambda>parseError. fallback_subtasks env parentTask jsonResponse)"

text \<open>src/unnamed/part_000, lines 112 to 202. The prompt and the log line that reads
  \<^verbatim>\<open>parentTask.id\<close> come before the outer \<open>try\<close>.\<close>

definition expandTaskWithGemini_enh :: "env \<Rightarrow> jsval \<Rightarrow> jsval comp" where
  "expandTaskWithGemini_enh env parentTask =
     (if \<not> configured env then js_bind (log LError) (\<lambda>_. js_return JNull)
      else
        js_bind (js_lift (expand_request parentTask)) (\<lambda>prompt.
        js_bind (js_lift (member (js ''id'') parentTask)) (\<lambda>id.
        js_bind (log LInfo) (\<lambda>_.
        js_try
          (js_bind (axios_post env prompt) (\<lambda>data.
           js_bind (js_lift (has_text_parts data)) (\<lambda>ok.
             if ok then
               js_bind (js_lift (first_part_text data)) (\<lambda>text.
               js_bind (js_lift (string_receiver text)) (\<lambda>raw.
               accept_subtasks_enh env parentTask (clean_enh raw)))
             else
               js_bind (log LError) (\<lambda>_. js_bind (log LDebug) (\<lambda>_. js_return JNull)))))
          (\<lambda>error. js_bind (log LError) (\<lambda>_. js_return JNull))))))"

text \<open>src/src/prd_parser.js, lines 131 to 143 and 94 to 154: the original version, with
  no fallback and no backup.\<close>

definition accept_subtasks_orig :: "env \<Rightarrow> jsstring \<Rightarrow> jsval comp" where
  "accept_subtasks_orig env jsonResponse =
     js_try
       (js_bind (JSON_parse env jsonResponse) (\<lambda>parsedSubtasks.
          if \<not> is_array parsedSubtasks then js_throw Error
          else
            js_bind (js_lift (every has_title (elements parsedSubtasks))) (\<lambda>ok.
              if \<not> ok then js_throw Error
              else
                js_bind (log LInfo) (\<lambda>_.
                js_bind (js_lift (map_js (member (js ''title'')) (elements parsedSubtasks)))
                  (\<lambda>titles. js_return (JArr titles))))))
       (\<lambda>parseError.
          js_bind (log LError) (\<lambda>_. js_bind (log LError) (\<lambda>_. js_return JNull)))"

definition expandTaskWithGemini_orig :: "env \<Rightarrow> jsval \<Rightarrow> jsval comp" where
  "expandTaskWithGemini_orig env parentTask =
     (if \<not> configured env then js_bind (log LError) (\<lambda>_. js_return JNull)
      else
        js_bind (js_lift (expand_request parentTask)) (\<lambda>prompt.
        js_bind (js_lift (member (js ''id'') parentTask)) (\<lambda>id.
        js_bind (log LInfo) (\<lambda>_.
        js_try
          (js_bind (axios_post env prompt) (\<lambda>data.
           js_bind (js_lift (has_text_parts data)) (\<lambda>ok.
             if ok then
               js_bind (js_lift (first_part_text data)) (\<lambda>text.
               js_bind (js_lift (string_receiver text)) (\<lambda>raw.
               accept_subtasks_orig env (clean_orig raw)))
             else
               js_bind (log LError) (\<lambda>_. js_bind (log LError) (\<lambda>_. js_return JNull)))))
          (\<lambda>error. js_bind (log LError) (\<lambda>_. js_return JNull))))))"

section \<open>reviseTasksWithGemini\<close>

text \<open>
  src/unnamed/part_000, lines 269 to 272, the callback of \<open>every\<close>:
  \<^verbatim>\<open>task => typeof task === 'object' && task.id !== undefined
     && typeof task.title === 'string'\<close>
\<close>

definition has_id_and_title :: "jsval \<Rightarrow> exn + bool" where
  "has_id_and_title t =
     (if \<not> typeof_object t then Inr False
      else case member (js ''id'') t of Inl e \<Rightarrow> Inl e
        | Inr i \<Rightarrow>
            if i = JUndefined then Inr False
            else (case member (js ''title'') t of Inl e \<Rightarrow> Inl e
                  | Inr ti \<Rightarrow> Inr (typeof_string ti)))"

text \<open>
  \<open>v.map(cb)\<close> on an argument: only an array has the method; on any other value the call
  throws a TypeError.
\<close>

definition array_map :: "(jsval \<Rightarrow> exn + jsval) \<Rightarrow> jsval \<Rightarrow> exn + jsval list" where
  "array_map cb v = (if is_array v then map_js cb (elements v) else Inl TypeError)"

text \<open>
  src/unnamed/part_000, lines 212 and 213 (src/src/prd_parser.js, lines 164 and 165), the
  two callbacks: \<^verbatim>\<open>t => `ID ${t.id}: ${t.title} (${t.status})`\<close>, recorded as the three
  values it interpolates, and
  \<^verbatim>\<open>t => ({ id: t.id, title: t.title, description: t.description, priority: t.priority,
     dependsOn: t.dependsOn })\<close>.
\<close>

definition past_summary :: "jsval \<Rightarrow> exn + jsval" where
  "past_summary t =
     (case member (js ''id'') t of Inl e \<Rightarrow> Inl e
      | Inr i \<Rightarrow>
          (case member (js ''title'') t of Inl e \<Rightarrow> Inl e
           | Inr ti \<Rightarrow>
               (case member (js ''status'') t of Inl e \<Rightarrow> Inl e
                | Inr st \<Rightarrow> Inr (JArr [i, ti, st]))))"

definition future_entry :: "jsval \<Rightarrow> exn + jsval" where
  "future_entry t =
     (case member (js ''id'') t of Inl e \<Rightarrow> Inl e
      | Inr i \<Rightarrow>
          (case member (js ''title'') t of Inl e \<Rightarrow> Inl e
           | Inr ti \<Rightarrow>
               (case member (js ''description'') t of Inl e \<Rightarrow> Inl e
                | Inr d \<Rightarrow>
                    (case member (js ''priority'') t of Inl e \<Rightarrow> Inl e
                     | Inr p \<Rightarrow>
                         (case member (js ''dependsOn'') t of Inl e \<Rightarrow> Inl e
                          | Inr deps \<Rightarrow>
                              Inr (JObj [(js ''id'', i), (js ''title'', ti),
                                         (js ''description'', d), (js ''priority'', p),
                                         (js ''dependsOn'', deps)]))))))"

text \<open>
  The prompt of a revision. It is built before the outer \<open>try\<close>, so the TypeError of a
  \<open>pastTasks\<close> or \<open>futureTasks\<close> that is not an array, or that holds an \<open>undefined\<close> or
  \<open>null\<close> entry, leaves the function.
\<close>

definition revise_request :: "jsval \<Rightarrow> jsval \<Rightarrow> jsval \<Rightarrow> exn + request" where
  "revise_request userPrompt pastTasks futureTasks =
     (case array_map past_summary pastTasks of Inl e \<Rightarrow> Inl e
      | Inr pastTasksSummary \<Rightarrow>
          (case array_map future_entry futureTasks of Inl e \<Rightarrow> Inl e
           | Inr futureTasksString \<Rightarrow>
               Inr (RevisePrompt userPrompt pastTasksSummary futureTasksString)))"

text \<open>src/unnamed/part_000, lines 262 to 288.\<close>

definition accept_revision_enh :: "env \<Rightarrow> jsstring \<Rightarrow> jsval comp" where
  "accept_revision_enh env jsonResponse =
     js_try
       (js_bind (JSON_parse env jsonResponse) (\<lambda>parsedTasks.
          if \<not> is_array parsedTasks then js_throw Error
          else
            js_bind (js_lift (every has_id_and_title (elements parsedTasks))) (\<lambda>ok.
              if \<not> ok then js_throw Error
              else
                js_bind (new_timestamp env) (\<lambda>timestamp.
                js_bind (fs_writeFileSync env
                           (js ''revised_tasks_'' @ timestamp @ js ''.json'')
                           (env_stringify env parsedTasks)) (\<lambda>_.
                js_bind (log LInfo) (\<lambda>_.
                js_bind (log LInfo) (\<lambda>_.
                js_return parsedTasks)))))))
       (\<lambda>parseError.
          js_bind (log LError) (\<lambda>_. js_bind (log LDebug) (\<lambda>_. js_return JNull)))"

text \<open>src/unnamed/part_000, lines 205 to 299.\<close>

definition reviseTasksWithGemini_enh :: "env \<Rightarrow> jsval \<Rightarrow> jsval \<Rightarrow> jsval \<Rightarrow> jsval comp" where
  "reviseTasksWithGemini_enh env userPrompt pastTasks futureTasks =
     (if \<not> configured env then js_bind (log LError) (\<lambda>_. js_return JNull)
      else
        js_bind (js_lift (revise_request userPrompt pastTasks futureTasks)) (\<lambda>prompt.
        js_bind (log LInfo) (\<lambda>_.
        js_try
          (js_bind (axios_post env prompt) (\<lambda>data.
           js_bind (js_lift (has_text_parts data)) (\<lambda>ok.
             if ok then
               js_bind (js_lift (first_part_text data)) (\<lambda>text.
               js_bind (js_lift (string_receiver text)) (\<lambda>raw.
               accept_revision_enh env (clean_enh raw)))
             else
               js_bind (log LError) (\<lambda>_. js_bind (log LDebug) (\<lambda>_. js_return JNull)))))
          (\<lambda>error. js_bind (log LError) (\<lambda>_. js_return JNull)))))"

text \<open>src/src/prd_parser.js, lines 203 to 215 and 157 to 226: the original version, which
  asks for an array and nothing more.\<close>

definition accept_revision_orig :: "env \<Rightarrow> jsstring \<Rightarrow> jsval comp" where
  "accept_revision_orig env jsonResponse =
     js_try
       (js_bind (JSON_parse env jsonResponse) (\<lambda>revisedTasks.
          if \<not> is_array revisedTasks then js_throw Error
          else js_bind (log LInfo) (\<lambda>_. js_return revisedTasks)))
       (\<lambda>parseError.
          js_bind (log LError) (\<lambda>_. js_bind (log LError) (\<lambda>_. js_return JNull)))"

definition reviseTasksWithGemini_orig :: "env \<Rightarrow> jsval \<Rightarrow> jsval \<Rightarrow> jsval \<Rightarrow> jsval comp" where
  "reviseTasksWithGemini_orig env userPrompt pastTasks futureTasks =
     (if \<not> configured env then js_bind (log LError) (\<lambda>_. js_return JNull)
      else
        js_bind (js_lift (revise_request userPrompt pastTasks futureTasks)) (\<lambda>prompt.
        js_bind (log LInfo) (\<lambda>_.
        js_try
          (js_bind (axios_post env prompt) (\<lambda>data.
           js_bind (js_lift (has_text_parts data)) (\<lambda>ok.
             if ok then
               js_bind (js_lift (first_part_text data)) (\<lambda>text.
               js_bind (js_lift (string_receiver text)) (\<lambda>raw.
               accept_revision_orig env (clean_orig raw)))
             else
               js_bind (log LError) (\<lambda>_. js_bind (log LError) (\<lambda>_. js_return JNull)))))
          (\<lambda>error. js_bind (log LError) (\<lambda>_. js_return JNull)))))"

section \<open>What the three functions share\<close>

text \<open>
  Each function, in both files, posts its request inside an outer \<open>try\<close>, tests the shape
  of the response, takes the text of its first part, and hands the cleaned text to its own
  inner \<open>try\<close>. \<open>respond\<close> is that common frame, with the level of the second log line
  of the \<open>else\<close> branch and the rest of the function as parameters; \<open>response_text\<close> is
  the text the frame reaches: an exception when reading the response throws, \<open>None\<close> when
  the test fails, the text otherwise.
\<close>

definition response_text :: "jsval \<Rightarrow> exn + jsstring option" where
  "response_text d =
     (case has_text_parts d of Inl e \<Rightarrow> Inl e
      | Inr ok \<Rightarrow>
          if ok then
            (case first_part_text d of Inl e \<Rightarrow> Inl e
             | Inr t \<Rightarrow> (case string_receiver t of Inl e \<Rightarrow> Inl e | Inr raw \<Rightarrow> Inr (Some raw)))
          else Inr None)"

definition respond :: "env \<Rightarrow> request \<Rightarrow> level \<Rightarrow> (jsstring \<Rightarrow> jsval comp) \<Rightarrow> jsval comp" where
  "respond env req lvl accept =
     js_try
       (js_bind (axios_post env req) (\<lambda>data.
        js_bind (js_lift (has_text_parts data)) (\<lambda>ok.
          if ok then
            js_bind (js_lift (first_part_text data)) (\<lambda>text.
            js_bind (js_lift (string_receiver text)) (\<lambda>raw. accept raw))
          else
            js_bind (log LError) (\<lambda>_. js_bind (log lvl) (\<lambda>_. js_return JNull)))))
       (\<lambda>error. js_bind (log LError) (\<lambda>_. js_return JNull))"

text \<open>An argument of which a property can be read is neither \<open>undefined\<close> nor \<open>null\<close>.\<close>

definition nullish :: "jsval \<Rightarrow> bool" where
  "nullish v \<longleftrightarrow> v = JUndefined \<or> v = JNull"


text \<open>\<^verbatim>\<open>${parentTask.id}\<close> in the name of a backup, for a \<open>parentTask\<close> of which the
  property can be read.\<close>

definition id_text :: "env \<Rightarrow> jsval \<Rightarrow> jsstring" where
  "id_text env parentTask =
     (case member (js ''id'') parentTask of Inl e \<Rightarrow> []
      | Inr i \<Rightarrow> to_string (env_number_string env) i)"

text \<open>The timestamp in the name of a backup, when the clock is read for the \<open>n\<close>-th time.\<close>

definition stamp :: "env \<Rightarrow> nat \<Rightarrow> jsstring" where
  "stamp env n = map (\<lambda>c. if c = 58 \<or> c = 46 then 45 else c) (env_clock env n)"

text \<open>The persisted task store, as the workflow rules under src/.cursor/rules name it.\<close>

definition tasks_file :: jsstring where
  "tasks_file = js ''tasks.json''"

text \<open>The writes that completed, in order, each with its path and content.\<close>

fun writes_of :: "event list \<Rightarrow> (jsstring \<times> jsstring) list" where
  "writes_of [] = []"
| "writes_of (EvWrite path content # evs) = (path, content) # writes_of evs"
| "writes_of (ev # evs) = writes_of evs"

text \<open>The paths of all writes, those that threw included.\<close>

fun write_targets :: "event list \<Rightarrow> jsstring list" where
  "write_targets [] = []"
| "write_targets (EvWrite path content # evs) = path # write_targets evs"
| "write_targets (EvWriteFailed path content # evs) = path # write_targets evs"
| "write_targets (ev # evs) = write_targets evs"




text \<open>The strict parse of an expansion accepts a value: it is an array and \<open>every\<close>
  returns true on it.\<close>

definition strict_ok :: "jsval \<Rightarrow> bool" where
  "strict_ok v \<longleftrightarrow> is_array v \<and> every has_title (elements v) = Inr True"

text \<open>
  Modelled from the spec: the shape that section 6 promises for each entry that
  \<open>generateTasksFromDocument\<close> returns, \<^verbatim>\<open>{title, description, priority, dependsOn}\<close>: an
  object that carries these four properties. The source has no such test; the definition
  states what the claim about \<open>parsePrdWithGemini\<close> asks of an entry.
\<close>

definition task_shaped :: "jsval \<Rightarrow> bool" where
  "task_shaped v =
     (case v of
        JObj kvs \<Rightarrow>
          map_of kvs (js ''title'') \<noteq> None \<and> map_of kvs (js ''description'') \<noteq> None
          \<and> map_of kvs (js ''priority'') \<noteq> None \<and> map_of kvs (js ''dependsOn'') \<noteq> None
      | _ \<Rightarrow> False)"

section \<open>The task engine\<close>

text \<open>
  The engine that holds the store, the selector and the revision merger is not among the
  source files; what follows is modelled from sections 4.2, 4.4 and 4.5 of the spec. The
  store is the ordered sequence of its tasks.
\<close>

datatype priority = High | Medium | Low

datatype status = Todo | Inprogress | Done | Blocked

text \<open>Modelled from the spec: the Task of section 3 (the engine that holds the tasks is
  missing from the source files), with its identifier, title, optional description,
  priority, status and ordered dependency identifiers.\<close>

record task =
  task_id :: nat
  title :: jsstring
  description :: "jsstring option"
  priority :: priority
  status :: status
  dependsOn :: "nat list"

type_synonym store = "task list"

text \<open>Modelled from the spec: the fixed rank of section 4.4, high = 3, medium = 2,
  low = 1 (the selector itself is missing from the source files).\<close>

fun rank :: "priority \<Rightarrow> nat" where
  "rank High = 3"
| "rank Medium = 2"
| "rank Low = 1"

text \<open>Modelled from the spec: \<open>isSatisfied\<close> of section 4.2 (the Dependency Resolver is
  missing from the source files). It returns true iff every identifier in the task's
  dependency list resolves to a task whose status is \<open>done\<close>; an identifier that resolves
  to no task is not treated as satisfied.\<close>

definition isSatisfied :: "task \<Rightarrow> store \<Rightarrow> bool" where
  "isSatisfied t store =
     list_all (\<lambda>d. case find (\<lambda>u. task_id u = d) store of None \<Rightarrow> False
                    | Some u \<Rightarrow> status u = Done)
       (dependsOn t)"

text \<open>Modelled from the spec: the order of section 4.4 (the selector is missing from the
  source files): priority descending by rank, then identifier ascending as tie-break.\<close>

definition comes_first :: "task \<Rightarrow> task \<Rightarrow> bool" where
  "comes_first a b \<longleftrightarrow>
     rank (priority b) < rank (priority a) \<or>
     (rank (priority a) = rank (priority b) \<and> task_id a \<le> task_id b)"

text \<open>Modelled from the spec: ordering the filtered set of section 4.4 (the selector is
  missing from the source files), as an insertion sort by \<open>comes_first\<close>.\<close>

fun insert_task :: "task \<Rightarrow> task list \<Rightarrow> task list" where
  "insert_task t [] = [t]"
| "insert_task t (u # us) = (if comes_first t u then t # u # us else u # insert_task t us)"

text \<open>Modelled from the spec: see \<open>insert_task\<close> (the selector is missing from the source
  files).\<close>

fun order_tasks :: "task list \<Rightarrow> task list" where
  "order_tasks [] = []"
| "order_tasks (t # ts) = insert_task t (order_tasks ts)"

text \<open>Modelled from the spec: \<open>selectNext\<close> of section 4.4 (the Next-Task Selector is
  missing from the source files). It filters the tasks to those with status \<open>todo\<close> that
  are satisfied, orders them, and returns the first element, or none if the filtered set
  is empty.\<close>

definition selectNext :: "store \<Rightarrow> task option" where
  "selectNext store =
     (case order_tasks (filter (\<lambda>t. status t = Todo \<and> isSatisfied t store) store) of
        [] \<Rightarrow> None
      | t # ts \<Rightarrow> Some t)"

text \<open>Modelled from the spec: the IntegrityError of sections 4.5 and 7 (the Revision
  Merger is missing from the source files). It enumerates the violated references, each
  as the pair of the proposed task's identifier and the identifier that does not resolve.\<close>

datatype revision_error = IntegrityError "(nat \<times> nat) list"

text \<open>Modelled from the spec: the past segment of section 4.5 (the Revision Merger is
  missing from the source files): the tasks with an identifier below \<open>fromId\<close>.\<close>

definition past_segment :: "store \<Rightarrow> nat \<Rightarrow> task list" where
  "past_segment store fromId = filter (\<lambda>t. task_id t < fromId) store"

text \<open>Modelled from the spec: the validation of section 4.5 (the Revision Merger is
  missing from the source files). A dependency identifier of a proposed task must resolve
  into the past segment or into the proposed list itself; every one that does not is a
  violated reference.\<close>

definition dangling_references :: "store \<Rightarrow> nat \<Rightarrow> task list \<Rightarrow> (nat \<times> nat) list" where
  "dangling_references store fromId proposed =
     concat (map (\<lambda>t. map (\<lambda>d. (task_id t, d))
                        (filter (\<lambda>d. d \<notin> set (map task_id (past_segment store fromId))
                                    \<and> d \<notin> set (map task_id proposed))
                           (dependsOn t)))
               proposed)"

text \<open>Modelled from the spec: \<open>mergeRevision\<close> of section 4.5 (the Revision Merger is
  missing from the source files). On success the future segment is replaced wholesale by
  the proposed list; on failure the error enumerates every violated reference.\<close>

definition mergeRevision :: "store \<Rightarrow> nat \<Rightarrow> task list \<Rightarrow> revision_error + store" where
  "mergeRevision store fromId proposed =
     (if dangling_references store fromId proposed = []
      then Inr (past_segment store fromId @ proposed)
      else Inl (IntegrityError (dangling_references store fromId proposed)))"

text \<open>Modelled from the spec: the store before and after a call of the Revision Merger
  (which is missing from the source files); by section 4.5 a failure leaves the store
  unmodified.\<close>

definition revise_store :: "store \<Rightarrow> nat \<Rightarrow> task list \<Rightarrow> store \<times> revision_error option" where
  "revise_store store fromId proposed =
     (case mergeRevision store fromId proposed of
        Inl err \<Rightarrow> (store, Some err)
      | Inr store' \<Rightarrow> (store', None))"

text \<open>Modelled from the spec: the tasks that the selector considers, in the words of
  section 4.4 and of the glossary (the selector is missing from the source files): status
  \<open>todo\<close>, and a dependency list that contains only identifiers of tasks with status
  \<open>done\<close>. It is compared with \<open>isSatisfied\<close> below.\<close>

definition actionable :: "store \<Rightarrow> task \<Rightarrow> bool" where
  "actionable store t \<longleftrightarrow>
     status t = Todo \<and> (\<forall>d\<in>set (dependsOn t). \<exists>u\<in>set store. task_id u = d \<and> status u = Done)"

section \<open>Sample inputs\<close>

text \<open>
  Concrete inputs for the examples below. \<open>gemini_response text\<close> is a response of the
  expected structure, \<^verbatim>\<open>{candidates: [{content: {parts: [{text: text}]}}]}\<close>. The
  sample texts are \<^verbatim>\<open>[1]\<close>, \<^verbatim>\<open>[{"title":"a"}]\<close>, \<^verbatim>\<open>[{"id":5,"title":"t"}]\<close> and
  \<^verbatim>\<open>do it\<close>; \<open>sample_parse\<close> is \<open>JSON.parse\<close> on them (it throws on the last),
  \<open>sample_stringify\<close> is \<open>JSON.stringify(v, null, 2)\<close> on the three values, and
  \<open>sample_number_string\<close> prints the numbers 1, 5 and 7.
\<close>

definition dq :: code_unit where
  "dq = 34"

definition text_number :: jsstring where
  "text_number = js ''[1]''"

definition text_titles :: jsstring where
  "text_titles = js ''[{'' @ dq # js ''title'' @ dq # js '':'' @ dq # js ''a'' @ dq # js ''}]''"

definition text_revision :: jsstring where
  "text_revision =
     js ''[{'' @ dq # js ''id'' @ dq # js '':5,'' @ dq # js ''title'' @ dq # js '':'' @ dq # js ''t''
       @ dq # js ''}]''"

definition text_prose :: jsstring where
  "text_prose = js ''do it''"

definition value_number :: jsval where
  "value_number = JArr [JNum 1]"

definition value_titles :: jsval where
  "value_titles = JArr [JObj [(js ''title'', JStr (js ''a''))]]"

definition value_revision :: jsval where
  "value_revision = JArr [JObj [(js ''id'', JNum 5), (js ''title'', JStr (js ''t''))]]"

definition sample_parse :: "jsstring \<Rightarrow> jsval option" where
  "sample_parse s =
     (if s = text_number then Some value_number
      else if s = text_titles then Some value_titles
      else if s = text_revision then Some value_revision
      else None)"

definition sample_stringify :: "jsval \<Rightarrow> jsstring" where
  "sample_stringify v =
     (if v = value_number then js ''[\<newline>  1\<newline>]''
      else if v = value_titles then
        js ''[\<newline>  {\<newline>    '' @ dq # js ''title'' @ dq # js '': '' @ dq # js ''a'' @ dq
          # js ''\<newline>  }\<newline>]''
      else if v = value_revision then
        js ''[\<newline>  {\<newline>    '' @ dq # js ''id'' @ dq # js '': 5,\<newline>    '' @ dq # js ''title''
          @ dq # js '': '' @ dq # js ''t'' @ dq # js ''\<newline>  }\<newline>]''
      else [])"

definition sample_number_string :: "rat \<Rightarrow> jsstring" where
  "sample_number_string n =
     (if n = 1 then js ''1'' else if n = 5 then js ''5'' else if n = 7 then js ''7'' else [])"

definition gemini_response :: "jsstring \<Rightarrow> jsval" where
  "gemini_response text =
     JObj [(js ''candidates'',
            JArr [JObj [(js ''content'',
                         JObj [(js ''parts'', JArr [JObj [(js ''text'', JStr text)]])])]])]"

definition sample_env :: "jsstring option \<Rightarrow> jsstring \<Rightarrow> bool \<Rightarrow> env" where
  "sample_env key text writable =
     \<lparr> env_API_KEY = key,
       env_file = (\<lambda>path. if path = js ''prd.txt'' then Some (js ''Build a game'') else None),
       env_post = (\<lambda>req. HttpResponse (gemini_response text)),
       env_parse = sample_parse,
       env_stringify = sample_stringify,
       env_write_ok = (\<lambda>path content. writable),
       env_clock = (\<lambda>n. js ''2024-05-06T07:08:09.010Z''),
       env_number_string = sample_number_string \<rparr>"

definition sample_key :: "jsstring option" where
  "sample_key = Some (js ''secret'')"

text \<open>
  An environment in which the service answers \<^verbatim>\<open>[{"title":"a"}]\<close> and the backup of
  the strict parse of an expansion cannot be written, while the backup of the fallback can.
\<close>

definition strict_backup_unwritable :: env where
  "strict_backup_unwritable =
     (sample_env sample_key text_titles True)
       \<lparr>env_write_ok := \<lambda>path content. prefix (js ''subtasks_fallback_'') path\<rparr>"

text \<open>The task \<^verbatim>\<open>{id: 7, title: "Board", status: "todo"}\<close> and a change prompt.\<close>

definition sample_task :: jsval where
  "sample_task =
     JObj [(js ''id'', JNum 7), (js ''title'', JStr (js ''Board'')),
           (js ''status'', JStr (js ''todo''))]"

definition sample_prompt :: jsval where
  "sample_prompt = JStr (js ''use GraphQL'')"

definition world0 :: world where
  "world0 = \<lparr> events = [], ticks = 0 \<rparr>"

text \<open>Tasks for the scenarios of section 8 of the spec.\<close>

definition mk_task :: "nat \<Rightarrow> priority \<Rightarrow> status \<Rightarrow> nat list \<Rightarrow> task" where
  "mk_task i p s deps =
     \<lparr> task_id = i, title = js ''task'', description = None, priority = p, status = s,
       dependsOn = deps \<rparr>"

definition scenario_store :: store where
  "scenario_store = [mk_task 1 High Done [], mk_task 2 Medium Todo [1], mk_task 3 Low Todo []]"

definition tie_store :: store where
  "tie_store = [mk_task 7 High Todo [], mk_task 3 High Todo []]"

definition revision_store :: store where
  "revision_store =
     [mk_task 1 High Done [], mk_task 2 High Done [1], mk_task 3 Medium Done [],
      mk_task 4 Medium Inprogress [3], mk_task 5 Low Todo [4]]"

section \<open>Properties of the response cleanup\<close>

lemma nl_bt [simp]: "nl \<noteq> bt" "bt \<noteq> nl" by (simp_all add: nl_def bt_def)

lemma no_fence_prefix:
  assumes "\<not> includes_str fence body"
  shows "\<not> prefix fence (body @ nl # rest)"
proof (cases body)
  case Nil then show ?thesis by (simp add: fence_def)
next
  case (Cons a as)
  note A = this
  show ?thesis
  proof (cases as)
    case Nil with A show ?thesis by (simp add: fence_def)
  next
    case (Cons b bs)
    note B = this
    show ?thesis
    proof (cases bs)
      case Nil with A B show ?thesis by (simp add: fence_def)
    next
      case (Cons c cs)
      with A B assms show ?thesis by (auto simp add: fence_def)
    qed
  qed
qed

lemma find_close_body:
  "\<not> includes_str fence body \<Longrightarrow> find_close (body @ nl # fence) = Some (body, length body + 4)"
proof (induction body)
  case Nil
  then show ?case by simp
next
  case (Cons c cs)
  have "\<not> prefix fence (cs @ nl # fence)" using Cons.prems no_fence_prefix[of cs fence] by simp
  then have "\<not> prefix (nl # fence) ((c # cs) @ nl # fence)" by simp
  moreover have "find_close (cs @ nl # fence) = Some (cs, length cs + 4)" using Cons by simp
  ultimately show ?case by simp
qed

lemma delete_fence_body:
  "\<not> includes_str fence body \<Longrightarrow> delete_all fence (body @ nl # fence) = body @ [nl]"
proof (induction body)
  case Nil
  then show ?case by (simp add: fence_def)
next
  case (Cons c cs)
  have "\<not> prefix fence ((c # cs) @ nl # fence)" using Cons.prems no_fence_prefix by blast
  then show ?case using Cons by simp
qed

lemma prefix_fence_json: "prefix fence_json s \<Longrightarrow> prefix fence s"
  by (auto simp: fence_json_def prefix_def)

lemma delete_fence_json_body:
  "\<not> includes_str fence body \<Longrightarrow> delete_all fence_json (body @ nl # fence) = body @ nl # fence"
proof (induction body)
  case Nil
  then show ?case by (simp add: fence_def fence_json_def lang_json_def js_def)
next
  case (Cons c cs)
  have "\<not> prefix fence ((c # cs) @ nl # fence)" using Cons.prems no_fence_prefix by blast
  then have "\<not> prefix fence_json ((c # cs) @ nl # fence)" using prefix_fence_json by blast
  then show ?case using Cons by simp
qed

lemma trim_nl_both: "trim (nl # s @ [nl]) = trim s"
proof -
  have w: "is_white_space nl" by (simp add: is_white_space_def nl_def)
  show ?thesis
  proof (cases "\<forall>x\<in>set s. is_white_space x")
    case True
    then have "\<forall>x\<in>set (s @ [nl]). is_white_space x" using w by simp
    then have a: "dropWhile is_white_space (s @ [nl]) = []" by (simp only: dropWhile_eq_Nil_conv)
    have b: "dropWhile is_white_space s = []" using True by (simp only: dropWhile_eq_Nil_conv)
    have "dropWhile is_white_space (nl # s @ [nl]) = []" using w a by (simp only: dropWhile.simps if_True)
    then show ?thesis using b by (simp only: trim_def rev.simps dropWhile.simps)
  next
    case False
    then have "dropWhile is_white_space (s @ [nl]) = dropWhile is_white_space s @ [nl]"
      by (auto simp: dropWhile_append1)
    then show ?thesis using w by (simp add: trim_def)
  qed
qed

lemma clean_orig_fenced:
  assumes "\<not> includes_str fence body"
  shows "clean_orig (fence_json @ nl # body @ nl # fence) = trim body"
proof -
  have 0: "\<not> includes_str fence (nl # body)" using assms by (simp add: fence_def)
  have "delete_all fence_json (fence_json @ nl # body @ nl # fence) = delete_all fence_json ((nl # body) @ nl # fence)"
    by (simp add: fence_json_def fence_def lang_json_def js_def)
  also have "\<dots> = (nl # body) @ nl # fence" using 0 by (rule delete_fence_json_body)
  finally have 1: "delete_all fence_json (fence_json @ nl # body @ nl # fence) = (nl # body) @ nl # fence" .
  have 2: "delete_all fence ((nl # body) @ nl # fence) = (nl # body) @ [nl]" using 0 by (rule delete_fence_body)
  show ?thesis unfolding clean_orig_def 1 2 using trim_nl_both by simp
qed

lemma clean_enh_fenced:
  assumes "\<not> includes_str fence body"
  shows "clean_enh (fence_json @ nl # body @ nl # fence) = trim body"
proof -
  define t where "t = [bt, bt] @ lang_json @ nl # body @ nl # fence"
  have e: "fence_json @ nl # body @ nl # fence = bt # t"
    by (simp add: t_def fence_json_def fence_def)
  have lt: "length t = length body + 11"
    by (simp add: t_def lang_json_def js_def fence_def)
  have fc: "find_close (body @ nl # fence) = Some (body, length body + 4)" using assms by (rule find_close_body)
  have mt: "match_tail (nl # body @ nl # fence) = Some (body, length body + 5)"
    by (simp add: match_tail_def fc)
  have mf: "match_fence (bt # t) = Some (body, length body + 12)"
    using mt by (simp add: t_def match_fence_def fence_def lang_json_def js_def)
  have "replace_fences (bt # t) = body @ replace_fences (drop (length body + 11) t)"
    using mf by (simp add: add.commute)
  then have "replace_fences (bt # t) = body" using lt by simp
  then show ?thesis by (simp add: clean_enh_def e)
qed

text \<open>
  C8. The two cleanups agree on a well-formed fenced response: on the text made of the
  opening fence with its \<open>json\<close> tag, a line feed, a body that contains no fence, a line
  feed and the closing fence, the enhanced cleanup and the original cleanup both give the
  trimmed body, so both versions hand the same text to \<open>JSON.parse\<close>.
\<close>

theorem cleanups_agree_on_fenced_json:
  assumes "\<not> includes_str fence body"
  shows "clean_enh (fence_json @ nl # body @ nl # fence) = trim body
       \<and> clean_orig (fence_json @ nl # body @ nl # fence) = trim body
       \<and> env_parse env (clean_enh (fence_json @ nl # body @ nl # fence))
           = env_parse env (clean_orig (fence_json @ nl # body @ nl # fence))"
  using assms by (simp add: clean_enh_fenced clean_orig_fenced)

theorem cleanups_agree_on_fenced_json_witness:
  "\<not> includes_str fence text_number
   \<and> clean_enh (fence_json @ nl # text_number @ nl # fence) = text_number
   \<and> clean_orig (fence_json @ nl # text_number @ nl # fence) = text_number"
proof -
  have h: "\<not> includes_str fence text_number"
    by (simp add: text_number_def js_def fence_def bt_def)
  have t: "trim text_number = text_number"
    by (simp add: text_number_def js_def trim_def is_white_space_def)
  show ?thesis
    using h t cleanups_agree_on_fenced_json [OF h, of "sample_env sample_key text_number True"]
    by simp
qed

section \<open>Running the three functions\<close>

lemmas comp_defs = js_return_def js_throw_def js_bind_def js_try_def js_lift_def emit_def log_def
  fs_readFileSync_def fs_writeFileSync_def axios_post_def JSON_parse_def new_timestamp_def

lemma respond_eq:
  "respond env req lvl accept w =
     (case env_post env req of
        HttpFails \<Rightarrow> (Inr JNull, w\<lparr>events := events w @ [EvPost req, EvLog LError]\<rparr>)
      | HttpResponse d \<Rightarrow>
          (case response_text d of
             Inl e \<Rightarrow> (Inr JNull, w\<lparr>events := events w @ [EvPost req, EvLog LError]\<rparr>)
           | Inr None \<Rightarrow> (Inr JNull, w\<lparr>events := events w @ [EvPost req, EvLog LError, EvLog lvl]\<rparr>)
           | Inr (Some raw) \<Rightarrow>
               (case accept raw (w\<lparr>events := events w @ [EvPost req]\<rparr>) of
                  (Inl e, w') \<Rightarrow> (Inr JNull, w'\<lparr>events := events w' @ [EvLog LError]\<rparr>)
                | (Inr v, w') \<Rightarrow> (Inr v, w'))))"
  by (simp add: respond_def response_text_def comp_defs split: http_outcome.splits sum.splits option.splits prod.splits)

lemma parsePrd_enh_unfold:
  "parsePrdWithGemini_enh env p w =
     (if \<not> configured env then (Inr JNull, w\<lparr>events := events w @ [EvLog LError, EvLog LError]\<rparr>)
      else case env_file env p of
          None \<Rightarrow> (Inr JNull, w\<lparr>events := events w @ [EvRead p, EvLog LError]\<rparr>)
        | Some c \<Rightarrow>
            respond env (PrdPrompt c) LDebug (\<lambda>raw. accept_prd_enh env p (clean_enh raw))
              (w\<lparr>events := events w @ [EvRead p, EvLog LInfo]\<rparr>))"
  by (simp add: parsePrdWithGemini_enh_def respond_def comp_defs split: option.splits)

lemma parsePrd_orig_unfold:
  "parsePrdWithGemini_orig env p w =
     (if \<not> configured env then (Inr JNull, w\<lparr>events := events w @ [EvLog LError, EvLog LError]\<rparr>)
      else case env_file env p of
          None \<Rightarrow> (Inr JNull, w\<lparr>events := events w @ [EvRead p, EvLog LError]\<rparr>)
        | Some c \<Rightarrow>
            respond env (PrdPrompt c) LError (\<lambda>raw. accept_prd_orig env (clean_orig raw))
              (w\<lparr>events := events w @ [EvRead p, EvLog LInfo]\<rparr>))"
  by (simp add: parsePrdWithGemini_orig_def respond_def comp_defs split: option.splits)

lemma member_cases:
  "nullish t \<Longrightarrow> member k t = Inl TypeError"
  "\<not> nullish t \<Longrightarrow> \<exists>v. member k t = Inr v"
  by (cases t; simp add: nullish_def)+

lemma expand_request_cases:
  "nullish t \<Longrightarrow> expand_request t = Inl TypeError"
  "\<not> nullish t \<Longrightarrow> \<exists>req. expand_request t = Inr req"
proof -
  show "nullish t \<Longrightarrow> expand_request t = Inl TypeError"
    by (simp add: expand_request_def member_cases(1))
  assume "\<not> nullish t"
  then obtain a b where "member (js ''title'') t = Inr a" "member (js ''description'') t = Inr b"
    using member_cases(2) by blast
  then show "\<exists>req. expand_request t = Inr req"
    by (simp add: expand_request_def)
qed

lemma expand_request_Inr: "expand_request t = Inr req \<Longrightarrow> \<not> nullish t"
  using expand_request_cases(1)[of t] by auto







lemma expand_enh_unfold:
  "expandTaskWithGemini_enh env t w =
     (if \<not> configured env then (Inr JNull, w\<lparr>events := events w @ [EvLog LError]\<rparr>)
      else case expand_request t of
          Inl e \<Rightarrow> (Inl e, w)
        | Inr req \<Rightarrow>
            respond env req LDebug (\<lambda>raw. accept_subtasks_enh env t (clean_enh raw))
              (w\<lparr>events := events w @ [EvLog LInfo]\<rparr>))"
proof (cases "nullish t")
  case True
  then show ?thesis
    by (simp add: expandTaskWithGemini_enh_def expand_request_cases(1) comp_defs)
next
  case False
  then obtain req i where "expand_request t = Inr req" "member (js ''id'') t = Inr i"
    using expand_request_cases(2) member_cases(2) by blast
  then show ?thesis
    by (simp add: expandTaskWithGemini_enh_def respond_def comp_defs)
qed

lemma expand_orig_unfold:
  "expandTaskWithGemini_orig env t w =
     (if \<not> configured env then (Inr JNull, w\<lparr>events := events w @ [EvLog LError]\<rparr>)
      else case expand_request t of
          Inl e \<Rightarrow> (Inl e, w)
        | Inr req \<Rightarrow>
            respond env req LError (\<lambda>raw. accept_subtasks_orig env (clean_orig raw))
              (w\<lparr>events := events w @ [EvLog LInfo]\<rparr>))"
proof (cases "nullish t")
  case True
  then show ?thesis
    by (simp add: expandTaskWithGemini_orig_def expand_request_cases(1) comp_defs)
next
  case False
  then obtain req i where "expand_request t = Inr req" "member (js ''id'') t = Inr i"
    using expand_request_cases(2) member_cases(2) by blast
  then show ?thesis
    by (simp add: expandTaskWithGemini_orig_def respond_def comp_defs)
qed

lemma revise_enh_unfold:
  "reviseTasksWithGemini_enh env u past fut w =
     (if \<not> configured env then (Inr JNull, w\<lparr>events := events w @ [EvLog LError]\<rparr>)
      else case revise_request u past fut of
          Inl e \<Rightarrow> (Inl e, w)
        | Inr req \<Rightarrow>
            respond env req LDebug (\<lambda>raw. accept_revision_enh env (clean_enh raw))
              (w\<lparr>events := events w @ [EvLog LInfo]\<rparr>))"
  by (simp add: reviseTasksWithGemini_enh_def respond_def comp_defs split: sum.splits)

lemma revise_orig_unfold:
  "reviseTasksWithGemini_orig env u past fut w =
     (if \<not> configured env then (Inr JNull, w\<lparr>events := events w @ [EvLog LError]\<rparr>)
      else case revise_request u past fut of
          Inl e \<Rightarrow> (Inl e, w)
        | Inr req \<Rightarrow>
            respond env req LError (\<lambda>raw. accept_revision_orig env (clean_orig raw))
              (w\<lparr>events := events w @ [EvLog LInfo]\<rparr>))"
  by (simp add: reviseTasksWithGemini_orig_def respond_def comp_defs split: sum.splits)

lemma accept_prd_enh_eq:
  "accept_prd_enh env p s w =
     (case env_parse env s of
        None \<Rightarrow> (Inr JNull, w\<lparr>events := events w @ [EvLog LError, EvLog LDebug]\<rparr>)
      | Some v \<Rightarrow>
          if is_array v then
            (if env_write_ok env (p @ js ''.tasks.'' @ stamp env (ticks w) @ js ''.json'') (env_stringify env v)
             then (Inr v, w\<lparr>events := events w @
                       [EvWrite (p @ js ''.tasks.'' @ stamp env (ticks w) @ js ''.json'') (env_stringify env v),
                        EvLog LInfo, EvLog LInfo],
                     ticks := Suc (ticks w)\<rparr>)
             else (Inr JNull, w\<lparr>events := events w @
                       [EvWriteFailed (p @ js ''.tasks.'' @ stamp env (ticks w) @ js ''.json'') (env_stringify env v),
                        EvLog LError, EvLog LDebug],
                     ticks := Suc (ticks w)\<rparr>))
          else (Inr JNull, w\<lparr>events := events w @ [EvLog LError, EvLog LDebug]\<rparr>))"
  by (simp add: accept_prd_enh_def comp_defs stamp_def split: option.splits)

lemma accept_prd_orig_eq:
  "accept_prd_orig env s w =
     (case env_parse env s of
        None \<Rightarrow> (Inr JNull, w\<lparr>events := events w @ [EvLog LError, EvLog LError]\<rparr>)
      | Some v \<Rightarrow>
          if is_array v then (Inr v, w\<lparr>events := events w @ [EvLog LInfo]\<rparr>)
          else (Inr JNull, w\<lparr>events := events w @ [EvLog LError, EvLog LError]\<rparr>))"
  by (simp add: accept_prd_orig_def comp_defs split: option.splits)

lemma accept_revision_orig_eq:
  "accept_revision_orig env s w =
     (case env_parse env s of
        None \<Rightarrow> (Inr JNull, w\<lparr>events := events w @ [EvLog LError, EvLog LError]\<rparr>)
      | Some v \<Rightarrow>
          if is_array v then (Inr v, w\<lparr>events := events w @ [EvLog LInfo]\<rparr>)
          else (Inr JNull, w\<lparr>events := events w @ [EvLog LError, EvLog LError]\<rparr>))"
  by (simp add: accept_revision_orig_def comp_defs split: option.splits)

lemma accept_revision_enh_eq:
  "accept_revision_enh env s w =
     (case env_parse env s of
        None \<Rightarrow> (Inr JNull, w\<lparr>events := events w @ [EvLog LError, EvLog LDebug]\<rparr>)
      | Some v \<Rightarrow>
          if is_array v \<and> every has_id_and_title (elements v) = Inr True then
            (if env_write_ok env (js ''revised_tasks_'' @ stamp env (ticks w) @ js ''.json'') (env_stringify env v)
             then (Inr v, w\<lparr>events := events w @
                       [EvWrite (js ''revised_tasks_'' @ stamp env (ticks w) @ js ''.json'') (env_stringify env v),
                        EvLog LInfo, EvLog LInfo],
                     ticks := Suc (ticks w)\<rparr>)
             else (Inr JNull, w\<lparr>events := events w @
                       [EvWriteFailed (js ''revised_tasks_'' @ stamp env (ticks w) @ js ''.json'') (env_stringify env v),
                        EvLog LError, EvLog LDebug],
                     ticks := Suc (ticks w)\<rparr>))
          else (Inr JNull, w\<lparr>events := events w @ [EvLog LError, EvLog LDebug]\<rparr>))"
  by (simp add: accept_revision_enh_def comp_defs stamp_def split: option.splits sum.splits)


lemma every_has_title_iff:
  "every has_title xs = Inr True \<longleftrightarrow>
     (\<forall>x\<in>set xs. \<exists>kvs t. x = JObj kvs \<and> map_of kvs (js ''title'') = Some t \<and> truthy t)"
proof (induction xs)
  case Nil
  then show ?case by simp
next
  case (Cons x xs)
  show ?case
  proof (cases x)
    case (JObj kvs)
    then show ?thesis using Cons
      by (cases "map_of kvs (js ''title'')") (auto simp: has_title_def)
  qed (simp_all add: has_title_def)
qed

lemma map_titles:
  "every has_title xs = Inr True \<Longrightarrow>
     \<exists>ts. map_js (member (js ''title'')) xs = Inr ts \<and>
       list_all2 (\<lambda>x t. \<exists>kvs. x = JObj kvs \<and> map_of kvs (js ''title'') = Some t \<and> truthy t) xs ts"
proof (induction xs)
  case Nil
  then show ?case by simp
next
  case (Cons x xs)
  from Cons.prems have hx: "has_title x = Inr True" and hxs: "every has_title xs = Inr True"
    by (auto split: sum.splits if_splits)
  from hx obtain kvs t where x: "x = JObj kvs" "map_of kvs (js ''title'') = Some t" "truthy t"
    using every_has_title_iff[of "[x]"] by auto
  from Cons.IH[OF hxs] obtain ts where ts: "map_js (member (js ''title'')) xs = Inr ts"
    "list_all2 (\<lambda>x t. \<exists>kvs. x = JObj kvs \<and> map_of kvs (js ''title'') = Some t \<and> truthy t) xs ts"
    by blast
  show ?case using x ts by simp
qed

lemma every_has_id_and_title_iff:
  "every has_id_and_title xs = Inr True \<longleftrightarrow>
     (\<forall>x\<in>set xs. \<exists>kvs i s. x = JObj kvs \<and> map_of kvs (js ''id'') = Some i \<and> i \<noteq> JUndefined
         \<and> map_of kvs (js ''title'') = Some (JStr s))"
proof (induction xs)
  case Nil
  then show ?case by simp
next
  case (Cons x xs)
  show ?case
  proof (cases x)
    case (JObj kvs)
    show ?thesis
    proof (cases "map_of kvs (js ''id'')")
      case None
      then show ?thesis using JObj by (simp add: has_id_and_title_def)
    next
      case (Some i)
      note I = this
      show ?thesis
      proof (cases "map_of kvs (js ''title'')")
        case None
        then show ?thesis using JObj I by (simp add: has_id_and_title_def)
      next
        case (Some ti)
        then show ?thesis using JObj I Cons
          by (cases ti) (auto simp: has_id_and_title_def)
      qed
    qed
  qed (simp_all add: has_id_and_title_def)
qed

lemma fallback_subtasks_eq:
  "\<not> nullish t \<Longrightarrow> fallback_subtasks env t s w =
     (if fallback_lines s \<noteq> [] then
        (if env_write_ok env
              (js ''subtasks_fallback_'' @ id_text env t @ js ''_'' @ stamp env (ticks w) @ js ''.txt'')
              (join_lines (fallback_lines s))
         then (Inr (JArr (map JStr (fallback_lines s))),
               w\<lparr>events := events w @
                  [EvLog LError, EvLog LDebug, EvLog LInfo, EvLog LInfo,
                   EvWrite (js ''subtasks_fallback_'' @ id_text env t @ js ''_'' @ stamp env (ticks w)
                              @ js ''.txt'')
                     (join_lines (fallback_lines s))],
                 ticks := Suc (ticks w)\<rparr>)
         else (Inl FsError,
               w\<lparr>events := events w @
                  [EvLog LError, EvLog LDebug, EvLog LInfo, EvLog LInfo,
                   EvWriteFailed (js ''subtasks_fallback_'' @ id_text env t @ js ''_''
                                    @ stamp env (ticks w) @ js ''.txt'')
                     (join_lines (fallback_lines s))],
                 ticks := Suc (ticks w)\<rparr>))
      else (Inr JNull, w\<lparr>events := events w @ [EvLog LError, EvLog LDebug, EvLog LInfo]\<rparr>))"
proof -
  assume "\<not> nullish t"
  then obtain i where i: "member (js ''id'') t = Inr i"
    using member_cases(2) by blast
  show ?thesis
    by (simp add: fallback_subtasks_def comp_defs stamp_def i id_text_def)
qed

lemma accept_subtasks_enh_fail:
  "(case env_parse env s of None \<Rightarrow> True | Some v \<Rightarrow> \<not> strict_ok v) \<Longrightarrow>
     accept_subtasks_enh env t s w = fallback_subtasks env t s w"
  by (auto simp add: accept_subtasks_enh_def strict_ok_def js_try_def js_bind_def JSON_parse_def js_throw_def
      js_return_def js_lift_def
      split: option.splits sum.splits)

lemma accept_subtasks_enh_ok:
  assumes "env_parse env s = Some v" "strict_ok v"
    "map_js (member (js ''title'')) (elements v) = Inr ts" "\<not> nullish t"
  shows "accept_subtasks_enh env t s w =
     (if env_write_ok env
           (js ''subtasks_'' @ id_text env t @ js ''_'' @ stamp env (ticks w) @ js ''.json'')
           (env_stringify env v)
      then (Inr (JArr ts),
            w\<lparr>events := events w @
               [EvWrite (js ''subtasks_'' @ id_text env t @ js ''_'' @ stamp env (ticks w) @ js ''.json'')
                  (env_stringify env v), EvLog LInfo, EvLog LInfo],
              ticks := Suc (ticks w)\<rparr>)
      else fallback_subtasks env t s
            (w\<lparr>ticks := Suc (ticks w),
               events := events w @
               [EvWriteFailed (js ''subtasks_'' @ id_text env t @ js ''_'' @ stamp env (ticks w)
                                 @ js ''.json'')
                  (env_stringify env v)]\<rparr>))"
proof -
  obtain i where i: "member (js ''id'') t = Inr i"
    using assms(4) member_cases(2) by blast
  show ?thesis
    using assms(1-3)
    by (simp add: accept_subtasks_enh_def strict_ok_def comp_defs stamp_def i id_text_def)
qed

lemma accept_subtasks_orig_fail:
  "(case env_parse env s of None \<Rightarrow> True | Some v \<Rightarrow> \<not> strict_ok v) \<Longrightarrow>
     accept_subtasks_orig env s w = (Inr JNull, w\<lparr>events := events w @ [EvLog LError, EvLog LError]\<rparr>)"
  by (auto simp add: accept_subtasks_orig_def strict_ok_def comp_defs
      split: option.splits sum.splits)

lemma accept_subtasks_orig_ok:
  assumes "env_parse env s = Some v" "strict_ok v"
    "map_js (member (js ''title'')) (elements v) = Inr ts"
  shows "accept_subtasks_orig env s w = (Inr (JArr ts), w\<lparr>events := events w @ [EvLog LInfo]\<rparr>)"
  using assms
  by (simp add: accept_subtasks_orig_def strict_ok_def comp_defs)

section \<open>Failure modes\<close>

lemmas unfolds = parsePrd_enh_unfold parsePrd_orig_unfold expand_enh_unfold expand_orig_unfold
  revise_enh_unfold revise_orig_unfold

text \<open>
  C10. With no \<open>GEMINI_API_KEY\<close> configured, each of the three functions, in both files,
  returns \<open>null\<close> at once: all it does to the outside is to log the error, so no file is
  read, no request is issued and nothing is written.
\<close>

theorem missing_credential_returns_null_without_io:
  assumes "\<not> configured env"
  shows "parsePrdWithGemini_enh env p w
           = (Inr JNull, w\<lparr>events := events w @ [EvLog LError, EvLog LError]\<rparr>)
       \<and> parsePrdWithGemini_orig env p w
           = (Inr JNull, w\<lparr>events := events w @ [EvLog LError, EvLog LError]\<rparr>)
       \<and> expandTaskWithGemini_enh env t w = (Inr JNull, w\<lparr>events := events w @ [EvLog LError]\<rparr>)
       \<and> expandTaskWithGemini_orig env t w = (Inr JNull, w\<lparr>events := events w @ [EvLog LError]\<rparr>)
       \<and> reviseTasksWithGemini_enh env u past fut w
           = (Inr JNull, w\<lparr>events := events w @ [EvLog LError]\<rparr>)
       \<and> reviseTasksWithGemini_orig env u past fut w
           = (Inr JNull, w\<lparr>events := events w @ [EvLog LError]\<rparr>)"
  using assms by (simp add: unfolds)

theorem missing_credential_returns_null_without_io_witness:
  "\<not> configured (sample_env None text_number True)
   \<and> \<not> configured (sample_env (Some []) text_number True)
   \<and> parsePrdWithGemini_orig (sample_env (Some []) text_number True) (js ''prd.txt'') world0
       = (Inr JNull, \<lparr>events = [EvLog LError, EvLog LError], ticks = 0\<rparr>)
   \<and> parsePrdWithGemini_enh (sample_env None text_number True) (js ''prd.txt'') world0
       = (Inr JNull, \<lparr>events = [EvLog LError, EvLog LError], ticks = 0\<rparr>)
   \<and> expandTaskWithGemini_enh (sample_env None text_number True) sample_task world0
       = (Inr JNull, \<lparr>events = [EvLog LError], ticks = 0\<rparr>)
   \<and> reviseTasksWithGemini_enh (sample_env None text_number True) sample_prompt (JArr [])
         (JArr [sample_task]) world0
       = (Inr JNull, \<lparr>events = [EvLog LError], ticks = 0\<rparr>)"
proof -
  have h: "\<not> configured (sample_env None text_number True)"
    by (simp add: configured_def sample_env_def)
  have e: "\<not> configured (sample_env (Some []) text_number True)"
    by (simp add: configured_def sample_env_def)
  show ?thesis
    using h e
      missing_credential_returns_null_without_io [OF h, of "js ''prd.txt''" world0 sample_task
        sample_prompt "JArr []" "JArr [sample_task]"]
      missing_credential_returns_null_without_io [OF e, of "js ''prd.txt''" world0 sample_task
        sample_prompt "JArr []" "JArr [sample_task]"]
    by (simp add: world0_def)
qed

lemma sample_response_text: "response_text (gemini_response text) = Inr (Some text)"
  by (simp add: response_text_def gemini_response_def has_text_parts_def first_part_text_def js_def)



lemma respond_text:
  "env_post env req = HttpResponse d \<Longrightarrow> response_text d = Inr (Some raw) \<Longrightarrow>
     fst (respond env req lvl accept w)
       = (case fst (accept raw (w\<lparr>events := events w @ [EvPost req]\<rparr>)) of
            Inl e \<Rightarrow> Inr JNull | Inr v \<Rightarrow> Inr v)"
  by (simp add: respond_eq split: sum.splits prod.splits)










lemma fallback_result:
  "\<not> nullish t \<Longrightarrow>
   fst (case fallback_subtasks env t s w of (Inl e, w') \<Rightarrow> (Inr JNull, w'\<lparr>events := events w' @ [EvLog LError]\<rparr>)
        | (Inr v, w') \<Rightarrow> (Inr v, w'))
     = Inr (if fallback_lines s \<noteq> []
              \<and> env_write_ok env
                   (js ''subtasks_fallback_'' @ id_text env t @ js ''_'' @ stamp env (ticks w)
                      @ js ''.txt'')
                   (join_lines (fallback_lines s))
            then JArr (map JStr (fallback_lines s)) else JNull)"
  by (simp add: fallback_subtasks_eq)

lemma expand_enh_strict_failure:
  assumes "configured env"
    and "expand_request t = Inr req"
    and "env_post env req = HttpResponse d"
    and "response_text d = Inr (Some raw)"
    and "case env_parse env (clean_enh raw) of None \<Rightarrow> True | Some v \<Rightarrow> \<not> strict_ok v"
  shows "fst (expandTaskWithGemini_enh env t w)
     = Inr (if fallback_lines (clean_enh raw) \<noteq> []
              \<and> env_write_ok env
                   (js ''subtasks_fallback_'' @ id_text env t @ js ''_'' @ stamp env (ticks w)
                      @ js ''.txt'')
                   (join_lines (fallback_lines (clean_enh raw)))
            then JArr (map JStr (fallback_lines (clean_enh raw))) else JNull)"
proof -
  let ?w = "w\<lparr>events := events w @ [EvLog LInfo]\<rparr>"
  let ?w' = "?w\<lparr>events := events ?w @ [EvPost req]\<rparr>"
  have n: "\<not> nullish t" using assms(2) by (rule expand_request_Inr)
  have "expandTaskWithGemini_enh env t w =
      (case fallback_subtasks env t (clean_enh raw) ?w' of
         (Inl e, w') \<Rightarrow> (Inr JNull, w'\<lparr>events := events w' @ [EvLog LError]\<rparr>)
       | (Inr v, w') \<Rightarrow> (Inr v, w'))"
    using assms(1,2,3,4) accept_subtasks_enh_fail[OF assms(5)]
    by (simp add: expand_enh_unfold respond_eq)
  then show ?thesis using fallback_result[OF n, of env "clean_enh raw" ?w'] by simp
qed







lemma clean_text_prose: "clean_enh text_prose = text_prose" "clean_orig text_prose = text_prose"
  by code_simp+

lemma clean_text_number: "clean_enh text_number = text_number" "clean_orig text_number = text_number"
  by code_simp+

lemma clean_text_titles: "clean_enh text_titles = text_titles" "clean_orig text_titles = text_titles"
  by code_simp+

lemma clean_text_revision: "clean_enh text_revision = text_revision" "clean_orig text_revision = text_revision"
  by code_simp+

lemma sample_parse_values:
  "sample_parse text_prose = None"
  "sample_parse text_number = Some value_number"
  "sample_parse text_titles = Some value_titles"
  "sample_parse text_revision = Some value_revision"
  by code_simp+

lemma fallback_text_prose: "fallback_lines text_prose = [text_prose]"
  by code_simp

lemma sample_env_simps:
  "configured (sample_env key text writable) \<longleftrightarrow> (case key of None \<Rightarrow> False | Some k \<Rightarrow> k \<noteq> [])"
  "env_file (sample_env key text writable) path
     = (if path = js ''prd.txt'' then Some (js ''Build a game'') else None)"
  "env_post (sample_env key text writable) req = HttpResponse (gemini_response text)"
  "env_parse (sample_env key text writable) = sample_parse"
  "env_stringify (sample_env key text writable) = sample_stringify"
  "env_write_ok (sample_env key text writable) path content = writable"
  "env_clock (sample_env key text writable) n = js ''2024-05-06T07:08:09.010Z''"
  "env_number_string (sample_env key text writable) = sample_number_string"
  by (simp_all add: sample_env_def configured_def)

lemma sample_requests:
  "expand_request sample_task
     = Inr (ExpandPrompt (JStr (js ''Board'')) (JStr (js ''N/A'')))"
  "revise_request sample_prompt (JArr []) (JArr [sample_task])
     = Inr (RevisePrompt sample_prompt []
         [JObj [(js ''id'', JNum 7), (js ''title'', JStr (js ''Board'')),
                (js ''description'', JUndefined), (js ''priority'', JUndefined),
                (js ''dependsOn'', JUndefined)]])"
  "\<not> nullish sample_task"
  "id_text (sample_env key text writable) sample_task = js ''7''"
  by (simp_all add: expand_request_def revise_request_def array_map_def future_entry_def
      sample_task_def js_def nullish_def id_text_def sample_env_def sample_number_string_def)



section \<open>Validation of the returned lists\<close>

text \<open>
  C2, as amended. \<open>parsePrdWithGemini\<close> does not look at the entries: once the response
  text is reached, the original version returns whatever the cleaned text parses to when
  that is an array, and \<open>null\<close> otherwise; the enhanced version does the same, provided
  the backup of the parsed array is written, and returns \<open>null\<close> when that write throws.
\<close>

theorem parsePrd_returns_any_array:
  assumes "configured env" and "env_file env p = Some c"
    and "env_post env (PrdPrompt c) = HttpResponse d" and "response_text d = Inr (Some raw)"
  shows "fst (parsePrdWithGemini_orig env p w)
           = Inr (case env_parse env (clean_orig raw) of None \<Rightarrow> JNull
                  | Some v \<Rightarrow> if is_array v then v else JNull)
       \<and> fst (parsePrdWithGemini_enh env p w)
           = Inr (case env_parse env (clean_enh raw) of None \<Rightarrow> JNull
                  | Some v \<Rightarrow>
                      if is_array v
                         \<and> env_write_ok env (p @ js ''.tasks.'' @ stamp env (ticks w) @ js ''.json'')
                              (env_stringify env v)
                      then v else JNull)"
  using assms
  by (simp add: parsePrd_orig_unfold parsePrd_enh_unfold respond_eq accept_prd_orig_eq
      accept_prd_enh_eq split: option.splits)

theorem parsePrd_returns_any_array_witness:
  "configured (sample_env sample_key text_number True)
   \<and> env_file (sample_env sample_key text_number True) (js ''prd.txt'') = Some (js ''Build a game'')
   \<and> response_text (gemini_response text_number) = Inr (Some text_number)
   \<and> fst (parsePrdWithGemini_orig (sample_env sample_key text_number True) (js ''prd.txt'') world0)
       = Inr (JArr [JNum 1])
   \<and> fst (parsePrdWithGemini_enh (sample_env sample_key text_number True) (js ''prd.txt'') world0)
       = Inr (JArr [JNum 1])"
proof -
  have h1: "configured (sample_env sample_key text_number True)"
    by (simp add: sample_env_simps sample_key_def js_def)
  have h2: "env_file (sample_env sample_key text_number True) (js ''prd.txt'') = Some (js ''Build a game'')"
    by (simp add: sample_env_simps)
  have h3: "env_post (sample_env sample_key text_number True) (PrdPrompt (js ''Build a game''))
      = HttpResponse (gemini_response text_number)"
    by (simp add: sample_env_simps)
  note h4 = sample_response_text [of text_number]
  show ?thesis
    using h1 h2 h4 parsePrd_returns_any_array [OF h1 h2 h3 h4, of world0]
    by (simp add: clean_text_number sample_env_simps sample_parse_values value_number_def)
qed

text \<open>
  C2 fails as stated: on the response text \<^verbatim>\<open>[1]\<close> both versions of
  \<open>parsePrdWithGemini\<close> return the array \<open>[1]\<close>, whose entry is a number and has none
  of the promised properties.
\<close>

theorem parsePrd_validates_entries_counterexample:
  "fst (parsePrdWithGemini_enh (sample_env sample_key text_number True) (js ''prd.txt'') world0)
     = Inr (JArr [JNum 1])
   \<and> fst (parsePrdWithGemini_orig (sample_env sample_key text_number True) (js ''prd.txt'') world0)
     = Inr (JArr [JNum 1])
   \<and> \<not> task_shaped (JNum 1)"
  by (simp add: parsePrd_orig_unfold parsePrd_enh_unfold respond_eq accept_prd_orig_eq
      accept_prd_enh_eq sample_env_simps sample_key_def sample_response_text clean_text_number
      sample_parse_values value_number_def task_shaped_def js_def)

text \<open>
  C3, as amended. Once the prompt is built and the response text is reached, the enhanced
  \<open>reviseTasksWithGemini\<close> returns the parsed value only if it is an array in which
  every entry is an object with an \<open>id\<close> property (of any value, \<open>null\<close> included) and a
  string \<open>title\<close>, and the backup is written; otherwise it returns \<open>null\<close>. The original
  \<open>reviseTasksWithGemini\<close> returns every array as it is parsed.
\<close>

theorem revise_validation:
  assumes "configured env"
    and "revise_request u past fut = Inr req"
    and "env_post env req = HttpResponse d"
    and "response_text d = Inr (Some raw)"
  shows "fst (reviseTasksWithGemini_enh env u past fut w)
           = Inr (case env_parse env (clean_enh raw) of None \<Rightarrow> JNull
                  | Some v \<Rightarrow>
                      if is_array v
                         \<and> (\<forall>x\<in>set (elements v). \<exists>kvs i s. x = JObj kvs
                               \<and> map_of kvs (js ''id'') = Some i \<and> i \<noteq> JUndefined
                               \<and> map_of kvs (js ''title'') = Some (JStr s))
                         \<and> env_write_ok env (js ''revised_tasks_'' @ stamp env (ticks w) @ js ''.json'')
                              (env_stringify env v)
                      then v else JNull)
       \<and> fst (reviseTasksWithGemini_orig env u past fut w)
           = Inr (case env_parse env (clean_orig raw) of None \<Rightarrow> JNull
                  | Some v \<Rightarrow> if is_array v then v else JNull)"
proof
  show "fst (reviseTasksWithGemini_enh env u past fut w)
           = Inr (case env_parse env (clean_enh raw) of None \<Rightarrow> JNull
                  | Some v \<Rightarrow>
                      if is_array v
                         \<and> (\<forall>x\<in>set (elements v). \<exists>kvs i s. x = JObj kvs
                               \<and> map_of kvs (js ''id'') = Some i \<and> i \<noteq> JUndefined
                               \<and> map_of kvs (js ''title'') = Some (JStr s))
                         \<and> env_write_ok env (js ''revised_tasks_'' @ stamp env (ticks w) @ js ''.json'')
                              (env_stringify env v)
                      then v else JNull)"
  proof -
    have "fst (reviseTasksWithGemini_enh env u past fut w)
           = Inr (case env_parse env (clean_enh raw) of None \<Rightarrow> JNull
                  | Some v \<Rightarrow>
                      if is_array v
                         \<and> every has_id_and_title (elements v) = Inr True
                         \<and> env_write_ok env (js ''revised_tasks_'' @ stamp env (ticks w) @ js ''.json'')
                              (env_stringify env v)
                      then v else JNull)"
      using assms
      by (simp add: revise_enh_unfold respond_eq accept_revision_enh_eq split: option.splits)
    then show ?thesis by (simp only: every_has_id_and_title_iff)
  qed
  show "fst (reviseTasksWithGemini_orig env u past fut w)
           = Inr (case env_parse env (clean_orig raw) of None \<Rightarrow> JNull
                  | Some v \<Rightarrow> if is_array v then v else JNull)"
    using assms
    by (simp add: revise_orig_unfold respond_eq accept_revision_orig_eq split: option.splits)
qed

theorem revise_validation_witness:
  "configured (sample_env sample_key text_revision True)
   \<and> response_text (gemini_response text_revision) = Inr (Some text_revision)
   \<and> fst (reviseTasksWithGemini_enh (sample_env sample_key text_revision True) sample_prompt (JArr [])
            (JArr [sample_task]) world0) = Inr value_revision
   \<and> fst (reviseTasksWithGemini_enh (sample_env sample_key text_number True) sample_prompt (JArr [])
            (JArr [sample_task]) world0) = Inr JNull"
proof -
  have h1: "configured (sample_env sample_key body True)" for body
    by (simp add: sample_env_simps sample_key_def js_def)
  have h2: "env_post (sample_env sample_key body True) req = HttpResponse (gemini_response body)"
    for body req
    by (simp add: sample_env_simps)
  note h3 = sample_requests(2)
  have v: "\<forall>x\<in>set (elements value_revision). \<exists>kvs i s. x = JObj kvs
                               \<and> map_of kvs (js ''id'') = Some i \<and> i \<noteq> JUndefined
                               \<and> map_of kvs (js ''title'') = Some (JStr s)"
    by (simp add: value_revision_def js_def)
  have a: "fst (reviseTasksWithGemini_enh (sample_env sample_key text_revision True) sample_prompt (JArr [])
            (JArr [sample_task]) world0) = Inr value_revision"
    using revise_validation [OF h1 h3 h2 sample_response_text, of text_revision world0] v
    by (simp add: clean_text_revision sample_env_simps sample_parse_values)
       (simp add: value_revision_def)
  have b: "fst (reviseTasksWithGemini_enh (sample_env sample_key text_number True) sample_prompt (JArr [])
            (JArr [sample_task]) world0) = Inr JNull"
    using revise_validation [OF h1 h3 h2 sample_response_text, of text_number world0]
    by (simp add: clean_text_number sample_env_simps sample_parse_values)
       (simp add: value_number_def)
  show ?thesis using h1 a b by (simp add: sample_response_text)
qed

text \<open>
  C3 fails as stated: on the response text \<^verbatim>\<open>[1]\<close> the original
  \<open>reviseTasksWithGemini\<close> returns the array \<open>[1]\<close>, whose entry is not an object.
\<close>

theorem revise_validation_counterexample:
  "fst (reviseTasksWithGemini_orig (sample_env sample_key text_number True) sample_prompt (JArr [])
          (JArr [sample_task]) world0) = Inr (JArr [JNum 1])
   \<and> \<not> typeof_object (JNum 1)
   \<and> has_id_and_title (JNum 1) = Inr False"
  by (simp add: revise_orig_unfold respond_eq accept_revision_orig_eq sample_env_simps sample_key_def
      sample_requests sample_response_text clean_text_number sample_parse_values value_number_def js_def
      has_id_and_title_def)

section \<open>The strict parse of an expansion and its fallback\<close>

lemma strict_ok_iff:
  "strict_ok v \<longleftrightarrow>
     is_array v \<and> (\<forall>x\<in>set (elements v). \<exists>kvs ti. x = JObj kvs
        \<and> map_of kvs (js ''title'') = Some ti \<and> truthy ti)"
  by (simp only: strict_ok_def every_has_title_iff)

lemma strict_ok_titles:
  assumes "strict_ok v"
  obtains ts where "map_js (member (js ''title'')) (elements v) = Inr ts"
    and "list_all2 (\<lambda>x ti. \<exists>kvs. x = JObj kvs \<and> map_of kvs (js ''title'') = Some ti \<and> truthy ti)
           (elements v) ts"
  using assms map_titles[of "elements v"] by (auto simp: strict_ok_def)

text \<open>
  What the original \<open>expandTaskWithGemini\<close> returns once the response text is reached:
  \<open>null\<close> when the cleaned text does not parse or the strict parse rejects the value,
  which is the case exactly when the value is not an array whose elements are all objects
  with a truthy \<open>title\<close>; otherwise the titles, one per element and in the order of the
  array.
\<close>

lemma original_expansion_result:
  assumes "configured env" and "expand_request t = Inr req"
    and "env_post env req = HttpResponse d" and "response_text d = Inr (Some raw)"
  shows "fst (expandTaskWithGemini_orig env t w)
           = (case env_parse env (clean_orig raw) of None \<Rightarrow> Inr JNull
              | Some v \<Rightarrow>
                  if is_array v \<and> (\<forall>x\<in>set (elements v). \<exists>kvs ti. x = JObj kvs
                        \<and> map_of kvs (js ''title'') = Some ti \<and> truthy ti)
                  then map_sum id JArr (map_js (member (js ''title'')) (elements v))
                  else Inr JNull)"
    and "env_parse env (clean_orig raw) = Some v \<Longrightarrow> strict_ok v \<Longrightarrow>
           \<exists>ts. fst (expandTaskWithGemini_orig env t w) = Inr (JArr ts)
              \<and> list_all2 (\<lambda>x ti. \<exists>kvs. x = JObj kvs \<and> map_of kvs (js ''title'') = Some ti
                            \<and> truthy ti) (elements v) ts"
proof -
  have r: "fst (expandTaskWithGemini_orig env t w)
      = fst (accept_subtasks_orig env (clean_orig raw)
               (w\<lparr>events := events w @ [EvLog LInfo, EvPost req]\<rparr>))"
    using assms(1,2) by (simp add: expand_orig_unfold respond_text[OF assms(3,4)] split: sum.splits)
      (simp add: accept_subtasks_orig_def comp_defs split: sum.splits option.splits prod.splits)
  show "fst (expandTaskWithGemini_orig env t w)
           = (case env_parse env (clean_orig raw) of None \<Rightarrow> Inr JNull
              | Some v \<Rightarrow>
                  if is_array v \<and> (\<forall>x\<in>set (elements v). \<exists>kvs ti. x = JObj kvs
                        \<and> map_of kvs (js ''title'') = Some ti \<and> truthy ti)
                  then map_sum id JArr (map_js (member (js ''title'')) (elements v))
                  else Inr JNull)"
  proof (cases "env_parse env (clean_orig raw)")
    case None
    then show ?thesis by (simp add: r accept_subtasks_orig_fail)
  next
    case (Some v)
    have eq: "(is_array v \<and> (\<forall>x\<in>set (elements v). \<exists>kvs ti. x = JObj kvs
                        \<and> map_of kvs (js ''title'') = Some ti \<and> truthy ti)) \<longleftrightarrow> strict_ok v"
      by (simp only: strict_ok_iff)
    have "fst (expandTaskWithGemini_orig env t w)
        = (if strict_ok v then map_sum id JArr (map_js (member (js ''title'')) (elements v))
           else Inr JNull)"
    proof (cases "strict_ok v")
      case True
      then obtain ts where ts: "map_js (member (js ''title'')) (elements v) = Inr ts"
        by (rule strict_ok_titles)
      show ?thesis
        using True ts by (simp add: r accept_subtasks_orig_ok[OF Some True ts])
    next
      case False
      then show ?thesis
        using Some by (simp add: r accept_subtasks_orig_fail)
    qed
    then show ?thesis
      by (simp only: Some option.case eq)
  qed
  show "\<exists>ts. fst (expandTaskWithGemini_orig env t w) = Inr (JArr ts)
              \<and> list_all2 (\<lambda>x ti. \<exists>kvs. x = JObj kvs \<and> map_of kvs (js ''title'') = Some ti
                            \<and> truthy ti) (elements v) ts"
    if p: "env_parse env (clean_orig raw) = Some v" and s: "strict_ok v"
  proof -
    obtain ts where ts: "map_js (member (js ''title'')) (elements v) = Inr ts"
      "list_all2 (\<lambda>x ti. \<exists>kvs. x = JObj kvs \<and> map_of kvs (js ''title'') = Some ti \<and> truthy ti)
         (elements v) ts"
      using s by (rule strict_ok_titles)
    show ?thesis
      using ts(2) by (auto simp add: r accept_subtasks_orig_ok[OF p s ts(1)])
  qed
qed

text \<open>
  The enhanced version on a response that the strict parse accepts: the same titles when
  the backup of the parsed array is written; when that write throws, the \<open>catch\<close> of the
  strict parse runs the fallback on the text.
\<close>

lemma enhanced_expansion_result:
  assumes "configured env" and "expand_request t = Inr req"
    and "env_post env req = HttpResponse d" and "response_text d = Inr (Some raw)"
    and "env_parse env (clean_enh raw) = Some v" and "strict_ok v"
  shows "env_write_ok env
           (js ''subtasks_'' @ id_text env t @ js ''_'' @ stamp env (ticks w) @ js ''.json'')
           (env_stringify env v) \<Longrightarrow>
         fst (expandTaskWithGemini_enh env t w)
           = map_sum id JArr (map_js (member (js ''title'')) (elements v))"
    and "\<not> env_write_ok env
           (js ''subtasks_'' @ id_text env t @ js ''_'' @ stamp env (ticks w) @ js ''.json'')
           (env_stringify env v) \<Longrightarrow>
         fst (expandTaskWithGemini_enh env t w)
           = Inr (if fallback_lines (clean_enh raw) \<noteq> []
                    \<and> env_write_ok env
                         (js ''subtasks_fallback_'' @ id_text env t @ js ''_''
                            @ stamp env (Suc (ticks w)) @ js ''.txt'')
                         (join_lines (fallback_lines (clean_enh raw)))
                  then JArr (map JStr (fallback_lines (clean_enh raw))) else JNull)"
proof -
  have n: "\<not> nullish t" using assms(2) by (rule expand_request_Inr)
  obtain ts where ts: "map_js (member (js ''title'')) (elements v) = Inr ts"
    using assms(6) by (rule strict_ok_titles)
  note ok = accept_subtasks_enh_ok[OF assms(5,6) ts n]
  show "fst (expandTaskWithGemini_enh env t w)
           = map_sum id JArr (map_js (member (js ''title'')) (elements v))"
    if "env_write_ok env
           (js ''subtasks_'' @ id_text env t @ js ''_'' @ stamp env (ticks w) @ js ''.json'')
           (env_stringify env v)"
    using that assms(1-4) ts by (simp add: expand_enh_unfold respond_eq ok)
  show "fst (expandTaskWithGemini_enh env t w)
           = Inr (if fallback_lines (clean_enh raw) \<noteq> []
                    \<and> env_write_ok env
                         (js ''subtasks_fallback_'' @ id_text env t @ js ''_''
                            @ stamp env (Suc (ticks w)) @ js ''.txt'')
                         (join_lines (fallback_lines (clean_enh raw)))
                  then JArr (map JStr (fallback_lines (clean_enh raw))) else JNull)"
    if "\<not> env_write_ok env
           (js ''subtasks_'' @ id_text env t @ js ''_'' @ stamp env (ticks w) @ js ''.json'')
           (env_stringify env v)"
    using that assms(1-4) by (simp add: expand_enh_unfold respond_eq ok fallback_subtasks_eq[OF n])
qed

lemma strict_ok_value_titles: "strict_ok value_titles"
  by (simp add: strict_ok_def value_titles_def has_title_def js_def)

lemma sample_configured: "configured (sample_env sample_key body writable)"
  by (simp add: sample_env_simps sample_key_def js_def)

lemma fallback_text_titles: "fallback_lines text_titles = [text_titles]"
  by code_simp

lemma strict_backup_unwritable_simps:
  "configured strict_backup_unwritable"
  "env_post strict_backup_unwritable req = HttpResponse (gemini_response text_titles)"
  "env_parse strict_backup_unwritable = sample_parse"
  "env_stringify strict_backup_unwritable = sample_stringify"
  "env_clock strict_backup_unwritable n = js ''2024-05-06T07:08:09.010Z''"
  "id_text strict_backup_unwritable sample_task = js ''7''"
  "env_write_ok strict_backup_unwritable path content = prefix (js ''subtasks_fallback_'') path"
  by (simp_all add: strict_backup_unwritable_def sample_env_def configured_def sample_key_def
      js_def id_text_def sample_task_def sample_number_string_def)

lemma sample_stamp:
  "stamp (sample_env key text writable) n = js ''2024-05-06T07-08-09-010Z''"
  "stamp strict_backup_unwritable n = js ''2024-05-06T07-08-09-010Z''"
  by (simp_all add: stamp_def sample_env_simps strict_backup_unwritable_simps js_def)

lemma strict_backup_paths:
  "\<not> prefix (js ''subtasks_fallback_'') (js ''subtasks_'' @ js ''7'' @ x)"
  "prefix (js ''subtasks_fallback_'') (js ''subtasks_fallback_'' @ x)"
  by (simp_all add: js_def)

text \<open>
  C4. A response that the strict parse accepts should give the flat sequence of its
  titles, and in the enhanced version it does not always. The response text
  \<^verbatim>\<open>[{"title":"a"}]\<close> parses to an array that the strict parse accepts; the original
  \<open>expandTaskWithGemini\<close> returns its titles, \<open>["a"]\<close>, and so does the enhanced
  version when its backup is written. When the write of the backup
  \<^verbatim>\<open>subtasks_7_2024-05-06T07-08-09-010Z.json\<close> throws, the enhanced version loses the
  titles: the \<open>catch\<close> of the strict parse, written as the
  \<^verbatim>\<open>Fallback to line splitting if JSON parsing fails\<close>, runs on the well-formed JSON
  and the function returns the JSON text itself as the one subtask title; it returns
  \<open>null\<close> when the backup of the fallback cannot be written either.
\<close>

theorem strict_backup_failure_loses_the_titles:
  "configured strict_backup_unwritable
   \<and> expand_request sample_task = Inr (ExpandPrompt (JStr (js ''Board'')) (JStr (js ''N/A'')))
   \<and> response_text (gemini_response text_titles) = Inr (Some text_titles)
   \<and> env_parse strict_backup_unwritable (clean_enh text_titles) = Some value_titles
   \<and> env_parse strict_backup_unwritable (clean_orig text_titles) = Some value_titles
   \<and> strict_ok value_titles
   \<and> fst (expandTaskWithGemini_orig strict_backup_unwritable sample_task world0)
       = Inr (JArr [JStr (js ''a'')])
   \<and> fst (expandTaskWithGemini_enh (sample_env sample_key text_titles True) sample_task world0)
       = Inr (JArr [JStr (js ''a'')])
   \<and> expandTaskWithGemini_enh strict_backup_unwritable sample_task world0
       = (Inr (JArr [JStr text_titles]),
          \<lparr>events =
             [EvLog LInfo,
              EvPost (ExpandPrompt (JStr (js ''Board'')) (JStr (js ''N/A''))),
              EvWriteFailed (js ''subtasks_7_2024-05-06T07-08-09-010Z.json'')
                (sample_stringify value_titles),
              EvLog LError, EvLog LDebug, EvLog LInfo, EvLog LInfo,
              EvWrite (js ''subtasks_fallback_7_2024-05-06T07-08-09-010Z.txt'') text_titles],
           ticks = 2\<rparr>)
   \<and> fst (expandTaskWithGemini_enh (sample_env sample_key text_titles False) sample_task world0)
       = Inr JNull"
proof -
  let ?E = strict_backup_unwritable
  have m: "map_js (member (js ''title'')) (elements value_titles) = Inr [JStr (js ''a'')]"
    by (simp add: value_titles_def)
  have p: "env_parse ?E text_titles = Some value_titles"
    "env_parse (sample_env sample_key text_titles b) text_titles = Some value_titles" for b
    by (simp_all add: strict_backup_unwritable_simps sample_env_simps sample_parse_values)
  note n = sample_requests(3)
  have j: "join_lines [text_titles] = text_titles"
    by simp
  have names:
    "js ''subtasks_'' @ js ''7'' @ js ''_'' @ js ''2024-05-06T07-08-09-010Z'' @ js ''.json''
       = js ''subtasks_7_2024-05-06T07-08-09-010Z.json''"
    "js ''subtasks_fallback_'' @ js ''7'' @ js ''_'' @ js ''2024-05-06T07-08-09-010Z'' @ js ''.txt''
       = js ''subtasks_fallback_7_2024-05-06T07-08-09-010Z.txt''"
    by (simp_all add: js_def)
  have a: "fst (expandTaskWithGemini_orig ?E sample_task world0) = Inr (JArr [JStr (js ''a'')])"
    by (simp add: expand_orig_unfold respond_eq strict_backup_unwritable_simps sample_requests
        sample_response_text clean_text_titles accept_subtasks_orig_ok[OF p(1) strict_ok_value_titles m])
  have b: "fst (expandTaskWithGemini_enh (sample_env sample_key text_titles True) sample_task world0)
       = Inr (JArr [JStr (js ''a'')])"
    by (simp add: expand_enh_unfold respond_eq sample_configured sample_requests
        sample_response_text clean_text_titles
        accept_subtasks_enh_ok[OF p(2) strict_ok_value_titles m n] sample_env_simps(2-8))
  have c: "expandTaskWithGemini_enh ?E sample_task world0
       = (Inr (JArr [JStr text_titles]),
          \<lparr>events =
             [EvLog LInfo,
              EvPost (ExpandPrompt (JStr (js ''Board'')) (JStr (js ''N/A''))),
              EvWriteFailed (js ''subtasks_7_2024-05-06T07-08-09-010Z.json'')
                (sample_stringify value_titles),
              EvLog LError, EvLog LDebug, EvLog LInfo, EvLog LInfo,
              EvWrite (js ''subtasks_fallback_7_2024-05-06T07-08-09-010Z.txt'') text_titles],
           ticks = 2\<rparr>)"
    by (simp add: expand_enh_unfold respond_eq strict_backup_unwritable_simps sample_requests(1)
        sample_response_text clean_text_titles
        accept_subtasks_enh_ok[OF p(1) strict_ok_value_titles m n] fallback_subtasks_eq[OF n]
        fallback_text_titles sample_stamp strict_backup_paths world0_def)
       (simp add: js_def)
  have d: "fst (expandTaskWithGemini_enh (sample_env sample_key text_titles False) sample_task world0)
       = Inr JNull"
    by (simp add: expand_enh_unfold respond_eq sample_configured sample_requests(1)
        sample_response_text clean_text_titles
        accept_subtasks_enh_ok[OF p(2) strict_ok_value_titles m n] fallback_subtasks_eq[OF n]
        fallback_text_titles sample_env_simps(2-8))
  show ?thesis
    using a b c d strict_ok_value_titles
    by (simp add: strict_backup_unwritable_simps sample_requests(1) sample_response_text
        clean_text_titles sample_parse_values)
qed

text \<open>
  C5, as amended. In the enhanced version, whenever the strict parse fails (the cleaned
  text does not parse, or parses to a value the shape check rejects),
  \<open>expandTaskWithGemini\<close> falls back to line splitting: it returns the trimmed, non-empty
  lines of the cleaned text that contain no fence, in their order, provided there is at
  least one and the backup of the joined lines is written; it returns \<open>null\<close> when there
  is no such line or when that write throws.
\<close>

theorem fallback_after_strict_failure:
  assumes "configured env"
    and "expand_request t = Inr req"
    and "env_post env req = HttpResponse d"
    and "response_text d = Inr (Some raw)"
    and "case env_parse env (clean_enh raw) of None \<Rightarrow> True | Some v \<Rightarrow> \<not> strict_ok v"
  shows "fst (expandTaskWithGemini_enh env t w)
           = Inr (if fallback_lines (clean_enh raw) \<noteq> []
                    \<and> env_write_ok env
                         (js ''subtasks_fallback_'' @ id_text env t @ js ''_''
                            @ stamp env (ticks w) @ js ''.txt'')
                         (join_lines (fallback_lines (clean_enh raw)))
                  then JArr (map JStr (fallback_lines (clean_enh raw))) else JNull)
       \<and> fallback_lines (clean_enh raw)
           = filter (\<lambda>line. line \<noteq> [] \<and> \<not> includes_str fence line)
               (map trim (split_lines (clean_enh raw)))"
  using expand_enh_strict_failure [OF assms] by (simp add: fallback_lines_def)

theorem fallback_after_strict_failure_witness:
  "configured (sample_env sample_key text_number True)
   \<and> expand_request sample_task = Inr (ExpandPrompt (JStr (js ''Board'')) (JStr (js ''N/A'')))
   \<and> response_text (gemini_response text_number) = Inr (Some text_number)
   \<and> env_parse (sample_env sample_key text_number True) (clean_enh text_number) = Some value_number
   \<and> \<not> strict_ok value_number
   \<and> fst (expandTaskWithGemini_enh (sample_env sample_key text_number True) sample_task world0)
       = Inr (JArr [JStr text_number])"
proof -
  let ?E = "sample_env sample_key text_number True"
  have h2: "env_post ?E req = HttpResponse (gemini_response text_number)" for req
    by (simp add: sample_env_simps)
  have p: "env_parse ?E (clean_enh text_number) = Some value_number"
    by (simp add: sample_env_simps clean_text_number sample_parse_values)
  have n: "\<not> strict_ok value_number"
    by (simp add: strict_ok_def value_number_def has_title_def)
  have h4: "case env_parse ?E (clean_enh text_number) of None \<Rightarrow> True | Some v \<Rightarrow> \<not> strict_ok v"
    using p n by simp
  have f: "fallback_lines text_number = [text_number]"
    by code_simp
  have "fst (expandTaskWithGemini_enh ?E sample_task world0) = Inr (JArr [JStr text_number])"
    using fallback_after_strict_failure
      [OF sample_configured sample_requests(1) h2 sample_response_text h4, of world0]
    by (simp add: clean_text_number f sample_env_simps)
  then show ?thesis using p n sample_configured sample_response_text sample_requests(1) by simp
qed

text \<open>
  C5 fails as stated: the response text \<^verbatim>\<open>do it\<close> fails the strict parse and has one
  fallback line, yet the enhanced \<open>expandTaskWithGemini\<close> returns \<open>null\<close> when the
  backup of the fallback cannot be written.
\<close>

theorem fallback_after_strict_failure_counterexample:
  "env_parse (sample_env sample_key text_prose False) (clean_enh text_prose) = None
   \<and> fallback_lines (clean_enh text_prose) = [text_prose]
   \<and> fst (expandTaskWithGemini_enh (sample_env sample_key text_prose False) sample_task world0)
       = Inr JNull"
proof -
  have p: "env_parse (sample_env sample_key text_prose False) (clean_enh text_prose) = None"
    by (simp add: sample_env_simps clean_text_prose sample_parse_values)
  have "fst (expandTaskWithGemini_enh (sample_env sample_key text_prose False) sample_task world0)
       = Inr JNull"
    using p
    by (simp add: expand_enh_unfold respond_eq sample_configured sample_response_text
        sample_requests accept_subtasks_enh_fail fallback_subtasks_eq fallback_text_prose
        clean_text_prose sample_env_simps)
  then show ?thesis using p by (simp add: clean_text_prose fallback_text_prose)
qed

section \<open>The writes of the enhanced version\<close>

lemma writes_of_append: "writes_of (a @ b) = writes_of a @ writes_of b"
  by (induction a rule: writes_of.induct) simp_all

lemma write_targets_append: "write_targets (a @ b) = write_targets a @ write_targets b"
  by (induction a rule: write_targets.induct) simp_all

lemma prd_backup_not_store: "p @ js ''.tasks.'' @ ts @ js ''.json'' \<noteq> tasks_file"
proof
  assume "p @ js ''.tasks.'' @ ts @ js ''.json'' = tasks_file"
  then have "length (p @ js ''.tasks.'' @ ts @ js ''.json'') = length tasks_file" by simp
  then show False by (simp add: js_def tasks_file_def)
qed

lemma revised_backup_not_store: "js ''revised_tasks_'' @ x \<noteq> tasks_file"
  by (simp add: js_def tasks_file_def)

lemma subtasks_backup_not_store: "js ''subtasks_'' @ x \<noteq> tasks_file"
  by (simp add: js_def tasks_file_def)

lemma fallback_backup_not_store: "js ''subtasks_fallback_'' @ x \<noteq> tasks_file"
  by (simp add: js_def tasks_file_def)

lemma respond_frame:
  assumes acc: "\<And>raw w'. ticks w' = ticks w \<Longrightarrow> writes_of (events w') = writes_of (events w) \<Longrightarrow>
      \<exists>ws. writes_of (events (snd (accept raw w'))) = writes_of (events w) @ ws
         \<and> (case fst (accept raw w') of Inl (e :: exn) \<Rightarrow> ws = []
            | Inr v \<Rightarrow> (v = JNull \<and> ws = []) \<or> S raw v ws)"
  shows "\<exists>v ws. fst (respond env req lvl accept w) = Inr v
         \<and> writes_of (events (snd (respond env req lvl accept w))) = writes_of (events w) @ ws
         \<and> ((v = JNull \<and> ws = [])
            \<or> (\<exists>d raw. env_post env req = HttpResponse d \<and> response_text d = Inr (Some raw)
                  \<and> S raw v ws))"
proof (cases "env_post env req")
  case HttpFails
  then show ?thesis by (simp add: respond_eq writes_of_append)
next
  case (HttpResponse d)
  show ?thesis
  proof (cases "response_text d")
    case (Inl e)
    then show ?thesis using HttpResponse by (simp add: respond_eq writes_of_append)
  next
    case (Inr o1)
    show ?thesis
    proof (cases o1)
      case None
      then show ?thesis using HttpResponse Inr by (simp add: respond_eq writes_of_append)
    next
      case (Some raw)
      let ?w1 = "w\<lparr>events := events w @ [EvPost req]\<rparr>"
      have t: "response_text d = Inr (Some raw)" using Inr Some by simp
      obtain res w2 where r: "accept raw ?w1 = (res, w2)" by (cases "accept raw ?w1")
      obtain ws where a: "writes_of (events w2) = writes_of (events w) @ ws"
          "case res of Inl (e :: exn) \<Rightarrow> ws = []
           | Inr v \<Rightarrow> (v = JNull \<and> ws = []) \<or> S raw v ws"
        using acc[of ?w1 raw] r by (auto simp: writes_of_append)
      show ?thesis
      proof (cases res)
        case (Inl e)
        then have "ws = []" using a(2) by simp
        then show ?thesis using HttpResponse t a(1) r Inl
          by (simp add: respond_eq writes_of_append)
      next
        case (Inr v)
        then have "(v = JNull \<and> ws = []) \<or> S raw v ws" using a(2) by simp
        then have "(v = JNull \<and> ws = [])
            \<or> (\<exists>d raw. env_post env req = HttpResponse d \<and> response_text d = Inr (Some raw)
                  \<and> S raw v ws)"
          using HttpResponse t by blast
        moreover have "respond env req lvl accept w = (Inr v, w2)"
          using HttpResponse t r Inr by (simp add: respond_eq)
        ultimately show ?thesis using a(1) by simp
      qed
    qed
  qed
qed

lemma respond_keeps_store:
  assumes "\<And>raw w'. tasks_file \<notin> set (write_targets (events w')) \<Longrightarrow>
      tasks_file \<notin> set (write_targets (events (snd (accept raw w'))))"
    and "tasks_file \<notin> set (write_targets (events w))"
  shows "tasks_file \<notin> set (write_targets (events (snd (respond env req lvl accept w))))"
proof (cases "env_post env req")
  case HttpFails
  then show ?thesis using assms(2) by (simp add: respond_eq write_targets_append)
next
  case (HttpResponse d)
  show ?thesis
  proof (cases "response_text d")
    case (Inl e)
    then show ?thesis using HttpResponse assms(2) by (simp add: respond_eq write_targets_append)
  next
    case (Inr o1)
    show ?thesis
    proof (cases o1)
      case None
      then show ?thesis using HttpResponse Inr assms(2) by (simp add: respond_eq write_targets_append)
    next
      case (Some raw)
      let ?w1 = "w\<lparr>events := events w @ [EvPost req]\<rparr>"
      have a: "tasks_file \<notin> set (write_targets (events (snd (accept raw ?w1))))"
        by (rule assms(1)) (simp add: write_targets_append assms(2))
      obtain res w2 where r: "accept raw ?w1 = (res, w2)" by (cases "accept raw ?w1")
      show ?thesis using HttpResponse Inr Some a r
        by (cases res) (simp_all add: respond_eq write_targets_append)
    qed
  qed
qed

lemma accept_prd_enh_writes:
  "\<exists>ws. writes_of (events (snd (accept_prd_enh env p s w))) = writes_of (events w) @ ws
     \<and> (case fst (accept_prd_enh env p s w) of Inl e \<Rightarrow> ws = []
        | Inr v \<Rightarrow> (v = JNull \<and> ws = [])
            \<or> (env_parse env s = Some v \<and> is_array v
                \<and> ws = [(p @ js ''.tasks.'' @ stamp env (ticks w) @ js ''.json'',
                          env_stringify env v)]))"
  by (simp add: accept_prd_enh_eq writes_of_append split: option.splits)

lemma accept_revision_enh_writes:
  "\<exists>ws. writes_of (events (snd (accept_revision_enh env s w))) = writes_of (events w) @ ws
     \<and> (case fst (accept_revision_enh env s w) of Inl e \<Rightarrow> ws = []
        | Inr v \<Rightarrow> (v = JNull \<and> ws = [])
            \<or> (env_parse env s = Some v \<and> is_array v
                \<and> ws = [(js ''revised_tasks_'' @ stamp env (ticks w) @ js ''.json'',
                          env_stringify env v)]))"
  by (simp add: accept_revision_enh_eq writes_of_append split: option.splits)

lemma accept_prd_enh_keeps_store:
  "tasks_file \<notin> set (write_targets (events w)) \<Longrightarrow>
     tasks_file \<notin> set (write_targets (events (snd (accept_prd_enh env p s w))))"
  by (simp add: accept_prd_enh_eq write_targets_append prd_backup_not_store [symmetric]
      split: option.splits)

lemma accept_revision_enh_keeps_store:
  "tasks_file \<notin> set (write_targets (events w)) \<Longrightarrow>
     tasks_file \<notin> set (write_targets (events (snd (accept_revision_enh env s w))))"
  by (simp add: accept_revision_enh_eq write_targets_append revised_backup_not_store [symmetric]
      split: option.splits)

lemma fallback_keeps_store:
  "\<not> nullish t \<Longrightarrow> tasks_file \<notin> set (write_targets (events w)) \<Longrightarrow>
     tasks_file \<notin> set (write_targets (events (snd (fallback_subtasks env t s w))))"
  by (simp add: fallback_subtasks_eq write_targets_append fallback_backup_not_store [symmetric]
     )

lemma accept_subtasks_enh_keeps_store:
  assumes "tasks_file \<notin> set (write_targets (events w))" and n: "\<not> nullish t"
  shows "tasks_file \<notin> set (write_targets (events (snd (accept_subtasks_enh env t s w))))"
proof (cases "case env_parse env s of None \<Rightarrow> True | Some v \<Rightarrow> \<not> strict_ok v")
  case True
  then show ?thesis using assms by (simp add: accept_subtasks_enh_fail fallback_keeps_store)
next
  case False
  then obtain v where v: "env_parse env s = Some v" "strict_ok v"
    by (auto split: option.splits)
  then obtain ts where ts: "map_js (member (js ''title'')) (elements v) = Inr ts"
    using map_titles[of "elements v"] by (auto simp: strict_ok_def)
  show ?thesis using assms
    by (simp add: accept_subtasks_enh_ok [OF v ts n] write_targets_append fallback_keeps_store
        subtasks_backup_not_store [symmetric])
qed


lemma fallback_writes:
  "\<not> nullish t \<Longrightarrow>
   \<exists>ws. writes_of (events (snd (fallback_subtasks env t s w))) = writes_of (events w) @ ws
     \<and> (case fst (fallback_subtasks env t s w) of Inl e \<Rightarrow> ws = []
        | Inr v \<Rightarrow> (v = JNull \<and> ws = [])
            \<or> (fallback_lines s \<noteq> [] \<and> v = JArr (map JStr (fallback_lines s))
                \<and> ws = [(js ''subtasks_fallback_'' @ id_text env t @ js ''_''
                           @ stamp env (ticks w) @ js ''.txt'', join_lines (fallback_lines s))]))"
  by (simp add: fallback_subtasks_eq writes_of_append)

lemma accept_subtasks_enh_writes:
  assumes n: "\<not> nullish t"
  shows "\<exists>ws. writes_of (events (snd (accept_subtasks_enh env t s w))) = writes_of (events w) @ ws
     \<and> (case fst (accept_subtasks_enh env t s w) of Inl e \<Rightarrow> ws = []
        | Inr v \<Rightarrow> (v = JNull \<and> ws = [])
            \<or> ((\<exists>parsed ts. env_parse env s = Some parsed \<and> strict_ok parsed
                  \<and> map_js (member (js ''title'')) (elements parsed) = Inr ts \<and> v = JArr ts
                  \<and> ws = [(js ''subtasks_'' @ id_text env t @ js ''_'' @ stamp env (ticks w)
                             @ js ''.json'', env_stringify env parsed)])
               \<or> (\<exists>m. fallback_lines s \<noteq> [] \<and> (m = ticks w \<or> m = Suc (ticks w))
                  \<and> v = JArr (map JStr (fallback_lines s))
                  \<and> ws = [(js ''subtasks_fallback_'' @ id_text env t @ js ''_''
                             @ stamp env m @ js ''.txt'', join_lines (fallback_lines s))])))"
proof (cases "case env_parse env s of None \<Rightarrow> True | Some v \<Rightarrow> \<not> strict_ok v")
  case True
  obtain ws where ws: "writes_of (events (snd (fallback_subtasks env t s w))) = writes_of (events w) @ ws"
    "case fst (fallback_subtasks env t s w) of Inl e \<Rightarrow> ws = []
        | Inr v \<Rightarrow> (v = JNull \<and> ws = [])
            \<or> (fallback_lines s \<noteq> [] \<and> v = JArr (map JStr (fallback_lines s))
                \<and> ws = [(js ''subtasks_fallback_'' @ id_text env t @ js ''_''
                           @ stamp env (ticks w) @ js ''.txt'', join_lines (fallback_lines s))])"
    using fallback_writes[OF n, of env s w] by blast
  show ?thesis
    unfolding accept_subtasks_enh_fail [OF True]
    using ws by (intro exI[of _ ws]) (auto split: sum.splits)
next
  case False
  then obtain v where v: "env_parse env s = Some v" "strict_ok v"
    by (auto split: option.splits)
  then obtain ts where ts: "map_js (member (js ''title'')) (elements v) = Inr ts"
    using map_titles[of "elements v"] by (auto simp: strict_ok_def)
  let ?path = "js ''subtasks_'' @ id_text env t @ js ''_'' @ stamp env (ticks w) @ js ''.json''"
  show ?thesis
  proof (cases "env_write_ok env ?path (env_stringify env v)")
    case True
    have "accept_subtasks_enh env t s w =
        (Inr (JArr ts), w\<lparr>events := events w @ [EvWrite ?path (env_stringify env v), EvLog LInfo, EvLog LInfo],
              ticks := Suc (ticks w)\<rparr>)"
      using True by (simp add: accept_subtasks_enh_ok [OF v ts n])
    then show ?thesis using v ts
      by (intro exI[of _ "[(?path, env_stringify env v)]"]) (auto simp: writes_of_append)
  next
    case False
    let ?w2 = "w\<lparr>ticks := Suc (ticks w),
               events := events w @ [EvWriteFailed ?path (env_stringify env v)]\<rparr>"
    have e: "accept_subtasks_enh env t s w = fallback_subtasks env t s ?w2"
      using False by (simp add: accept_subtasks_enh_ok [OF v ts n])
    obtain ws where ws: "writes_of (events (snd (fallback_subtasks env t s ?w2))) = writes_of (events ?w2) @ ws"
      "case fst (fallback_subtasks env t s ?w2) of Inl e \<Rightarrow> ws = []
        | Inr v \<Rightarrow> (v = JNull \<and> ws = [])
            \<or> (fallback_lines s \<noteq> [] \<and> v = JArr (map JStr (fallback_lines s))
                \<and> ws = [(js ''subtasks_fallback_'' @ id_text env t @ js ''_''
                           @ stamp env (ticks ?w2) @ js ''.txt'', join_lines (fallback_lines s))])"
      using fallback_writes[OF n, of env s ?w2] by blast
    have w2: "writes_of (events ?w2) = writes_of (events w)" "ticks ?w2 = Suc (ticks w)"
      by (simp_all add: writes_of_append)
    show ?thesis
      unfolding e using ws unfolding w2
      by (intro exI[of _ ws]) (auto split: sum.splits)
  qed
qed

text \<open>
  C9. In the enhanced version a call that returns a result other than \<open>null\<close> has
  completed exactly one write: for a parse or a revision the backup file, named with the
  timestamp, whose content is the serialization of the array that the cleaned response
  text parsed to, which is the array returned; for an expansion either the backup of the
  serialized array that the strict parse accepted (the titles of which are returned), or
  the backup of the joined fallback lines (which are returned). A call that returns
  \<open>null\<close> has completed no write, and neither has a call of \<open>expandTaskWithGemini\<close> or
  \<open>reviseTasksWithGemini\<close> that ends with the exception of a prompt that cannot be
  built; \<open>parsePrdWithGemini\<close> never ends with an exception. No write, completed or not,
  goes to the task store \<open>tasks.json\<close>: if it was not written before the call, it is not
  written after it.
\<close>

theorem backup_is_the_only_write:
  "(\<exists>v ws. fst (parsePrdWithGemini_enh env p w) = Inr v
      \<and> writes_of (events (snd (parsePrdWithGemini_enh env p w))) = writes_of (events w) @ ws
      \<and> ((v = JNull \<and> ws = [])
          \<or> (\<exists>c d raw. env_file env p = Some c \<and> env_post env (PrdPrompt c) = HttpResponse d
                \<and> response_text d = Inr (Some raw)
                \<and> env_parse env (clean_enh raw) = Some v \<and> is_array v
                \<and> ws = [(p @ js ''.tasks.'' @ stamp env (ticks w) @ js ''.json'',
                          env_stringify env v)])))
   \<and> (\<exists>ws. writes_of (events (snd (reviseTasksWithGemini_enh env u past fut w)))
          = writes_of (events w) @ ws
      \<and> (case fst (reviseTasksWithGemini_enh env u past fut w) of
            Inl e \<Rightarrow> ws = [] \<and> configured env \<and> revise_request u past fut = Inl e
          | Inr v \<Rightarrow>
              (v = JNull \<and> ws = [])
              \<or> (\<exists>req d raw. revise_request u past fut = Inr req
                    \<and> env_post env req = HttpResponse d
                    \<and> response_text d = Inr (Some raw)
                    \<and> env_parse env (clean_enh raw) = Some v \<and> is_array v
                    \<and> ws = [(js ''revised_tasks_'' @ stamp env (ticks w) @ js ''.json'',
                              env_stringify env v)])))
   \<and> (\<exists>ws. writes_of (events (snd (expandTaskWithGemini_enh env t w))) = writes_of (events w) @ ws
      \<and> (case fst (expandTaskWithGemini_enh env t w) of
            Inl e \<Rightarrow> ws = [] \<and> configured env \<and> expand_request t = Inl e
          | Inr v \<Rightarrow>
              (v = JNull \<and> ws = [])
              \<or> (\<exists>req d raw. expand_request t = Inr req \<and> env_post env req = HttpResponse d
                    \<and> response_text d = Inr (Some raw)
                    \<and> ((\<exists>parsed ts. env_parse env (clean_enh raw) = Some parsed \<and> strict_ok parsed
                           \<and> map_js (member (js ''title'')) (elements parsed) = Inr ts \<and> v = JArr ts
                           \<and> ws = [(js ''subtasks_'' @ id_text env t @ js ''_''
                                      @ stamp env (ticks w) @ js ''.json'', env_stringify env parsed)])
                        \<or> (\<exists>m. fallback_lines (clean_enh raw) \<noteq> []
                           \<and> (m = ticks w \<or> m = Suc (ticks w))
                           \<and> v = JArr (map JStr (fallback_lines (clean_enh raw)))
                           \<and> ws = [(js ''subtasks_fallback_'' @ id_text env t @ js ''_''
                                      @ stamp env m @ js ''.txt'',
                                     join_lines (fallback_lines (clean_enh raw)))])))))
   \<and> (tasks_file \<notin> set (write_targets (events w)) \<longrightarrow>
        tasks_file \<notin> set (write_targets (events (snd (parsePrdWithGemini_enh env p w))))
        \<and> tasks_file \<notin> set (write_targets (events (snd (reviseTasksWithGemini_enh env u past fut w))))
        \<and> tasks_file \<notin> set (write_targets (events (snd (expandTaskWithGemini_enh env t w)))))"
proof (intro conjI impI)
  show "\<exists>v ws. fst (parsePrdWithGemini_enh env p w) = Inr v
      \<and> writes_of (events (snd (parsePrdWithGemini_enh env p w))) = writes_of (events w) @ ws
      \<and> ((v = JNull \<and> ws = [])
          \<or> (\<exists>c d raw. env_file env p = Some c \<and> env_post env (PrdPrompt c) = HttpResponse d
                \<and> response_text d = Inr (Some raw)
                \<and> env_parse env (clean_enh raw) = Some v \<and> is_array v
                \<and> ws = [(p @ js ''.tasks.'' @ stamp env (ticks w) @ js ''.json'',
                          env_stringify env v)]))"
  proof (cases "configured env")
    case False
    then show ?thesis by (simp add: parsePrd_enh_unfold writes_of_append)
  next
    case True
    show ?thesis
    proof (cases "env_file env p")
      case None
      then show ?thesis using True by (simp add: parsePrd_enh_unfold writes_of_append)
    next
      case (Some c)
      let ?w = "w\<lparr>events := events w @ [EvRead p, EvLog LInfo]\<rparr>"
      let ?S = "\<lambda>raw v ws. env_parse env (clean_enh raw) = Some v \<and> is_array v
                \<and> ws = [(p @ js ''.tasks.'' @ stamp env (ticks w) @ js ''.json'',
                          env_stringify env v)]"
      let ?r = "respond env (PrdPrompt c) LDebug (\<lambda>raw. accept_prd_enh env p (clean_enh raw)) ?w"
      have "\<exists>v ws. fst ?r = Inr v \<and> writes_of (events (snd ?r)) = writes_of (events ?w) @ ws
          \<and> ((v = JNull \<and> ws = [])
            \<or> (\<exists>d raw. env_post env (PrdPrompt c) = HttpResponse d
                  \<and> response_text d = Inr (Some raw) \<and> ?S raw v ws))"
      proof (rule respond_frame[where S = ?S])
        have tw: "ticks ?w = ticks w" by simp
        fix raw and w' :: world
        assume a: "ticks w' = ticks ?w" "writes_of (events w') = writes_of (events ?w)"
        show "\<exists>ws. writes_of (events (snd (accept_prd_enh env p (clean_enh raw) w')))
              = writes_of (events ?w) @ ws
            \<and> (case fst (accept_prd_enh env p (clean_enh raw) w') of Inl e \<Rightarrow> ws = []
               | Inr v \<Rightarrow> (v = JNull \<and> ws = []) \<or> ?S raw v ws)"
          using accept_prd_enh_writes[where env = env and p = p and s = "clean_enh raw" and w = w']
          unfolding a tw .
      qed
      then obtain v ws where r: "fst ?r = Inr v"
          "writes_of (events (snd ?r)) = writes_of (events ?w) @ ws"
          "(v = JNull \<and> ws = [])
            \<or> (\<exists>d raw. env_post env (PrdPrompt c) = HttpResponse d
                  \<and> response_text d = Inr (Some raw) \<and> ?S raw v ws)"
        by blast
      have e: "parsePrdWithGemini_enh env p w = ?r"
        using True Some by (simp add: parsePrd_enh_unfold)
      have ww: "writes_of (events ?w) = writes_of (events w)"
        by (simp add: writes_of_append)
      show ?thesis unfolding e using r Some unfolding ww
        by (intro exI[of _ v] exI[of _ ws]) blast
    qed
  qed
next
  let ?R = "reviseTasksWithGemini_enh env u past fut w"
  show "\<exists>ws. writes_of (events (snd ?R)) = writes_of (events w) @ ws
      \<and> (case fst ?R of
            Inl e \<Rightarrow> ws = [] \<and> configured env \<and> revise_request u past fut = Inl e
          | Inr v \<Rightarrow>
              (v = JNull \<and> ws = [])
              \<or> (\<exists>req d raw. revise_request u past fut = Inr req
                    \<and> env_post env req = HttpResponse d
                    \<and> response_text d = Inr (Some raw)
                    \<and> env_parse env (clean_enh raw) = Some v \<and> is_array v
                    \<and> ws = [(js ''revised_tasks_'' @ stamp env (ticks w) @ js ''.json'',
                              env_stringify env v)]))"
  proof (cases "configured env")
    case False
    then show ?thesis by (simp add: revise_enh_unfold writes_of_append)
  next
    case True
    show ?thesis
    proof (cases "revise_request u past fut")
      case (Inl e)
      then show ?thesis using True by (simp add: revise_enh_unfold)
    next
      case (Inr req)
      let ?w = "w\<lparr>events := events w @ [EvLog LInfo]\<rparr>"
      let ?S = "\<lambda>raw v ws. env_parse env (clean_enh raw) = Some v \<and> is_array v
                  \<and> ws = [(js ''revised_tasks_'' @ stamp env (ticks w) @ js ''.json'',
                            env_stringify env v)]"
      let ?r = "respond env req LDebug (\<lambda>raw. accept_revision_enh env (clean_enh raw)) ?w"
      have "\<exists>v ws. fst ?r = Inr v \<and> writes_of (events (snd ?r)) = writes_of (events ?w) @ ws
          \<and> ((v = JNull \<and> ws = [])
              \<or> (\<exists>d raw. env_post env req = HttpResponse d
                    \<and> response_text d = Inr (Some raw) \<and> ?S raw v ws))"
      proof (rule respond_frame[where S = ?S])
        have tw: "ticks ?w = ticks w" by simp
        fix raw and w' :: world
        assume a: "ticks w' = ticks ?w" "writes_of (events w') = writes_of (events ?w)"
        show "\<exists>ws. writes_of (events (snd (accept_revision_enh env (clean_enh raw) w')))
              = writes_of (events ?w) @ ws
            \<and> (case fst (accept_revision_enh env (clean_enh raw) w') of Inl e \<Rightarrow> ws = []
               | Inr v \<Rightarrow> (v = JNull \<and> ws = []) \<or> ?S raw v ws)"
          using accept_revision_enh_writes[where env = env and s = "clean_enh raw" and w = w']
          unfolding a tw .
      qed
      then obtain v ws where r: "fst ?r = Inr v"
          "writes_of (events (snd ?r)) = writes_of (events ?w) @ ws"
          "(v = JNull \<and> ws = [])
              \<or> (\<exists>d raw. env_post env req = HttpResponse d
                    \<and> response_text d = Inr (Some raw) \<and> ?S raw v ws)"
        by blast
      have e: "?R = ?r"
        using True Inr by (simp add: revise_enh_unfold)
      have ww: "writes_of (events ?w) = writes_of (events w)"
        by (simp add: writes_of_append)
      have "(v = JNull \<and> ws = [])
              \<or> (\<exists>req d raw. revise_request u past fut = Inr req
                    \<and> env_post env req = HttpResponse d
                    \<and> response_text d = Inr (Some raw) \<and> ?S raw v ws)"
        using r(3) Inr by blast
      then show ?thesis
        unfolding e using r(1,2) unfolding ww
        by (intro exI[of _ ws]) simp
    qed
  qed
next
  let ?R = "expandTaskWithGemini_enh env t w"
  let ?S = "\<lambda>raw v ws.
      (\<exists>parsed ts. env_parse env (clean_enh raw) = Some parsed \<and> strict_ok parsed
          \<and> map_js (member (js ''title'')) (elements parsed) = Inr ts \<and> v = JArr ts
          \<and> ws = [(js ''subtasks_'' @ id_text env t @ js ''_''
                     @ stamp env (ticks w) @ js ''.json'', env_stringify env parsed)])
      \<or> (\<exists>m. fallback_lines (clean_enh raw) \<noteq> []
          \<and> (m = ticks w \<or> m = Suc (ticks w))
          \<and> v = JArr (map JStr (fallback_lines (clean_enh raw)))
          \<and> ws = [(js ''subtasks_fallback_'' @ id_text env t @ js ''_''
                     @ stamp env m @ js ''.txt'',
                    join_lines (fallback_lines (clean_enh raw)))])"
  show "\<exists>ws. writes_of (events (snd ?R)) = writes_of (events w) @ ws
      \<and> (case fst ?R of
            Inl e \<Rightarrow> ws = [] \<and> configured env \<and> expand_request t = Inl e
          | Inr v \<Rightarrow>
              (v = JNull \<and> ws = [])
              \<or> (\<exists>req d raw. expand_request t = Inr req \<and> env_post env req = HttpResponse d
                    \<and> response_text d = Inr (Some raw) \<and> ?S raw v ws))"
  proof (cases "configured env")
    case False
    then show ?thesis by (simp add: expand_enh_unfold writes_of_append)
  next
    case True
    show ?thesis
    proof (cases "expand_request t")
      case (Inl e)
      then show ?thesis using True by (simp add: expand_enh_unfold)
    next
      case (Inr req)
      have n: "\<not> nullish t" using Inr by (rule expand_request_Inr)
      let ?w = "w\<lparr>events := events w @ [EvLog LInfo]\<rparr>"
      let ?r = "respond env req LDebug (\<lambda>raw. accept_subtasks_enh env t (clean_enh raw)) ?w"
      have "\<exists>v ws. fst ?r = Inr v \<and> writes_of (events (snd ?r)) = writes_of (events ?w) @ ws
          \<and> ((v = JNull \<and> ws = [])
              \<or> (\<exists>d raw. env_post env req = HttpResponse d
                    \<and> response_text d = Inr (Some raw) \<and> ?S raw v ws))"
      proof (rule respond_frame[where S = ?S])
        have tw: "ticks ?w = ticks w" by simp
        fix raw and w' :: world
        assume a: "ticks w' = ticks ?w" "writes_of (events w') = writes_of (events ?w)"
        show "\<exists>ws. writes_of (events (snd (accept_subtasks_enh env t (clean_enh raw) w')))
              = writes_of (events ?w) @ ws
            \<and> (case fst (accept_subtasks_enh env t (clean_enh raw) w') of Inl e \<Rightarrow> ws = []
               | Inr v \<Rightarrow> (v = JNull \<and> ws = []) \<or> ?S raw v ws)"
          using accept_subtasks_enh_writes[OF n, where env = env and s = "clean_enh raw" and w = w']
          unfolding a tw .
      qed
      then obtain v ws where r: "fst ?r = Inr v"
          "writes_of (events (snd ?r)) = writes_of (events ?w) @ ws"
          "(v = JNull \<and> ws = [])
              \<or> (\<exists>d raw. env_post env req = HttpResponse d
                    \<and> response_text d = Inr (Some raw) \<and> ?S raw v ws)"
        by blast
      have e: "?R = ?r"
        using True Inr by (simp add: expand_enh_unfold)
      have ww: "writes_of (events ?w) = writes_of (events w)"
        by (simp add: writes_of_append)
      have "(v = JNull \<and> ws = [])
              \<or> (\<exists>req d raw. expand_request t = Inr req \<and> env_post env req = HttpResponse d
                    \<and> response_text d = Inr (Some raw) \<and> ?S raw v ws)"
        using r(3) Inr by blast
      then show ?thesis
        unfolding e using r(1,2) unfolding ww
        by (intro exI[of _ ws]) simp
    qed
  qed
next
  assume s: "tasks_file \<notin> set (write_targets (events w))"
  have k1: "tasks_file \<notin> set (write_targets (events (snd (respond env req lvl
        (\<lambda>raw. accept_prd_enh env p (clean_enh raw)) w0))))"
    if "tasks_file \<notin> set (write_targets (events w0))" for req lvl w0
    using accept_prd_enh_keeps_store that by (rule respond_keeps_store)
  have k2: "tasks_file \<notin> set (write_targets (events (snd (respond env req lvl
        (\<lambda>raw. accept_revision_enh env (clean_enh raw)) w0))))"
    if "tasks_file \<notin> set (write_targets (events w0))" for req lvl w0
    using accept_revision_enh_keeps_store that by (rule respond_keeps_store)
  have k3: "tasks_file \<notin> set (write_targets (events (snd (respond env req lvl
        (\<lambda>raw. accept_subtasks_enh env t (clean_enh raw)) w0))))"
    if "tasks_file \<notin> set (write_targets (events w0))" and "\<not> nullish t" for req lvl w0
    using accept_subtasks_enh_keeps_store[OF _ that(2)] that(1) by (rule respond_keeps_store)
  show "tasks_file \<notin> set (write_targets (events (snd (parsePrdWithGemini_enh env p w))))"
    using s by (simp add: parsePrd_enh_unfold write_targets_append k1 split: option.splits)
  show "tasks_file \<notin> set (write_targets (events (snd (reviseTasksWithGemini_enh env u past fut w))))"
    using s by (simp add: revise_enh_unfold write_targets_append k2 split: sum.splits)
  show "tasks_file \<notin> set (write_targets (events (snd (expandTaskWithGemini_enh env t w))))"
  proof (cases "expand_request t")
    case (Inl e)
    then show ?thesis using s by (simp add: expand_enh_unfold write_targets_append)
  next
    case (Inr req)
    then show ?thesis
      using s expand_request_Inr[OF Inr] by (simp add: expand_enh_unfold write_targets_append k3)
  qed
qed


theorem backup_is_the_only_write_witness:
  "fst (parsePrdWithGemini_enh (sample_env sample_key text_number True) (js ''prd.txt'') world0)
     = Inr value_number
   \<and> writes_of (events (snd (parsePrdWithGemini_enh (sample_env sample_key text_number True)
                               (js ''prd.txt'') world0)))
     = [(js ''prd.txt.tasks.2024-05-06T07-08-09-010Z.json'', js ''[\<newline>  1\<newline>]'')]
   \<and> tasks_file \<notin> set (write_targets (events world0))
   \<and> tasks_file \<notin> set (write_targets (events (snd (parsePrdWithGemini_enh
          (sample_env sample_key text_number True) (js ''prd.txt'') world0))))
   \<and> tasks_file \<notin> set (write_targets (events (snd (expandTaskWithGemini_enh
          (sample_env sample_key text_number True) sample_task world0))))"
proof -
  let ?E = "sample_env sample_key text_number True"
  note T = backup_is_the_only_write [where env = ?E and p = "js ''prd.txt''" and w = world0
      and u = sample_prompt and past = "JArr []" and fut = "JArr [sample_task]" and t = sample_task]
  have r: "fst (parsePrdWithGemini_enh ?E (js ''prd.txt'') world0) = Inr value_number"
    by (simp add: parsePrd_enh_unfold respond_eq accept_prd_enh_eq sample_configured
        sample_env_simps(2-7) sample_response_text clean_text_number sample_parse_values)
       (simp add: value_number_def)
  have n: "value_number \<noteq> JNull" by (simp add: value_number_def)
  have s0: "tasks_file \<notin> set (write_targets (events world0))" "writes_of (events world0) = []"
    by (simp_all add: world0_def)
  from T r n s0(2)
  have w: "writes_of (events (snd (parsePrdWithGemini_enh ?E (js ''prd.txt'') world0)))
      = [(js ''prd.txt'' @ js ''.tasks.'' @ stamp ?E (ticks world0) @ js ''.json'',
          env_stringify ?E value_number)]"
    by auto
  have p: "js ''prd.txt'' @ js ''.tasks.'' @ stamp ?E (ticks world0) @ js ''.json''
      = js ''prd.txt.tasks.2024-05-06T07-08-09-010Z.json''"
    by (simp add: stamp_def sample_env_simps js_def)
  have c: "env_stringify ?E value_number = js ''[\<newline>  1\<newline>]''"
    by (simp add: sample_env_simps sample_stringify_def)
  from T s0(1)
  have k: "tasks_file \<notin> set (write_targets (events (snd (parsePrdWithGemini_enh ?E (js ''prd.txt'') world0))))"
    "tasks_file \<notin> set (write_targets (events (snd (expandTaskWithGemini_enh ?E sample_task world0))))"
    by blast+
  show ?thesis using r w k s0(1) unfolding p c by simp
qed

section \<open>The selector and the revision merger\<close>

lemma set_insert_task: "set (insert_task t ts) = insert t (set ts)"
  by (induction ts) auto

lemma set_order_tasks: "set (order_tasks ts) = set ts"
  by (induction ts) (simp_all add: set_insert_task)

lemma comes_first_total: "comes_first a b \<or> comes_first b a"
  by (auto simp: comes_first_def)

lemma comes_first_trans: "comes_first a b \<Longrightarrow> comes_first b c \<Longrightarrow> comes_first a c"
  by (auto simp: comes_first_def)

lemma sorted_insert_task:
  "sorted_wrt comes_first ts \<Longrightarrow> sorted_wrt comes_first (insert_task t ts)"
proof (induction ts)
  case Nil
  then show ?case by simp
next
  case (Cons u us)
  show ?case
  proof (cases "comes_first t u")
    case True
    then have "\<forall>x\<in>set us. comes_first t x"
      using Cons.prems comes_first_trans by auto
    then show ?thesis using True Cons.prems by simp
  next
    case False
    then have "comes_first u t" using comes_first_total by blast
    then show ?thesis using False Cons by (auto simp: set_insert_task)
  qed
qed

lemma sorted_order_tasks: "sorted_wrt comes_first (order_tasks ts)"
  by (induction ts) (simp_all add: sorted_insert_task)

lemma order_tasks_head:
  assumes "order_tasks ts = h # rest"
  shows "h \<in> set ts \<and> (\<forall>u\<in>set ts. comes_first h u)"
proof -
  have s: "set ts = insert h (set rest)" using set_order_tasks[of ts] assms by simp
  have "sorted_wrt comes_first (h # rest)" using sorted_order_tasks[of ts] assms by simp
  then have "\<forall>u\<in>set rest. comes_first h u" by simp
  moreover have "comes_first h h" by (simp add: comes_first_def)
  ultimately show ?thesis using s by auto
qed

lemma order_tasks_Nil: "order_tasks ts = [] \<longleftrightarrow> ts = []"
  using set_order_tasks[of ts] by (metis set_empty)

lemma find_by_id:
  assumes "distinct (map task_id store)" "u \<in> set store"
  shows "find (\<lambda>x. task_id x = task_id u) store = Some u"
  using assms by (induction store) (auto simp: image_iff)

lemma isSatisfied_iff:
  assumes "distinct (map task_id store)"
  shows "isSatisfied t store \<longleftrightarrow>
     (\<forall>d\<in>set (dependsOn t). \<exists>u\<in>set store. task_id u = d \<and> status u = Done)"
proof -
  have "(case find (\<lambda>u. task_id u = d) store of None \<Rightarrow> False | Some u \<Rightarrow> status u = Done)
      \<longleftrightarrow> (\<exists>u\<in>set store. task_id u = d \<and> status u = Done)" for d
  proof (cases "find (\<lambda>u. task_id u = d) store")
    case None
    then have "\<forall>x\<in>set store. task_id x \<noteq> d" by (simp add: find_None_iff)
    then show ?thesis using None by auto
  next
    case (Some x)
    then have x: "x \<in> set store" "task_id x = d"
      by (auto simp: find_Some_iff in_set_conv_nth)
    have u: "y = x" if "y \<in> set store" "task_id y = d" for y
      using find_by_id[OF assms that(1)] that(2) Some by simp
    have "(\<exists>u\<in>set store. task_id u = d \<and> status u = Done) \<longleftrightarrow> status x = Done"
      using x u by blast
    then show ?thesis by (simp only: Some option.case)
  qed
  then show ?thesis by (simp add: isSatisfied_def list_all_iff)
qed

lemma selectNext_candidates:
  assumes "distinct (map task_id store)"
  shows "set (filter (\<lambda>t. status t = Todo \<and> isSatisfied t store) store)
     = {t \<in> set store. actionable store t}"
  using isSatisfied_iff[OF assms] by (auto simp: actionable_def)



lemma task_id_inj:
  assumes "distinct (map task_id store)" "a \<in> set store" "b \<in> set store" "task_id a = task_id b"
  shows "a = b"
proof -
  have "find (\<lambda>x. task_id x = task_id a) store = Some a" by (rule find_by_id[OF assms(1,2)])
  moreover have "find (\<lambda>x. task_id x = task_id a) store = Some b"
    using find_by_id[OF assms(1,3)] assms(4) by simp
  ultimately show ?thesis by simp
qed

lemma selectNext_None_iff:
  assumes "distinct (map task_id store)"
  shows "selectNext store = None \<longleftrightarrow> (\<forall>t\<in>set store. \<not> actionable store t)"
proof -
  let ?c = "filter (\<lambda>t. status t = Todo \<and> isSatisfied t store) store"
  have c: "set ?c = {t \<in> set store. actionable store t}"
    by (rule selectNext_candidates[OF assms])
  have "selectNext store = None \<longleftrightarrow> order_tasks ?c = []"
    by (simp add: selectNext_def split: list.splits)
  also have "\<dots> \<longleftrightarrow> set ?c = {}" by (simp only: order_tasks_Nil set_empty)
  also have "\<dots> \<longleftrightarrow> (\<forall>t\<in>set store. \<not> actionable store t)" unfolding c by blast
  finally show ?thesis .
qed

text \<open>
  C6. For a store with unique identifiers, \<open>selectNext\<close> returns none exactly when no task
  is actionable (status \<open>todo\<close>, every dependency the identifier of a \<open>done\<close> task), and
  it returns \<open>t\<close> exactly when \<open>t\<close> is an actionable task of the store that comes
  strictly before every other actionable task: higher priority rank (high = 3, medium = 2,
  low = 1), or equal rank and smaller identifier. So the result is unique for a snapshot;
  the selector is a function of the store and returns no store.
\<close>

theorem selectNext_is_the_first_actionable:
  assumes "distinct (map task_id store)"
  shows "(selectNext store = None \<longleftrightarrow> (\<forall>t\<in>set store. \<not> actionable store t))
       \<and> (\<forall>t. selectNext store = Some t \<longleftrightarrow>
              t \<in> set store \<and> actionable store t
              \<and> (\<forall>u\<in>set store. actionable store u \<and> u \<noteq> t \<longrightarrow>
                    rank (priority u) < rank (priority t)
                    \<or> (rank (priority u) = rank (priority t) \<and> task_id t < task_id u)))
       \<and> rank High = 3 \<and> rank Medium = 2 \<and> rank Low = 1"
proof (intro conjI allI)
  let ?c = "filter (\<lambda>t. status t = Todo \<and> isSatisfied t store) store"
  have c: "set ?c = {t \<in> set store. actionable store t}"
    by (rule selectNext_candidates[OF assms])
  have inj: "a = b" if "a \<in> set store" "b \<in> set store" "task_id a = task_id b" for a b
    using task_id_inj[OF assms that] .
  show "selectNext store = None \<longleftrightarrow> (\<forall>t\<in>set store. \<not> actionable store t)"
    by (rule selectNext_None_iff[OF assms])
  show "selectNext store = Some t \<longleftrightarrow>
              t \<in> set store \<and> actionable store t
              \<and> (\<forall>u\<in>set store. actionable store u \<and> u \<noteq> t \<longrightarrow>
                    rank (priority u) < rank (priority t)
                    \<or> (rank (priority u) = rank (priority t) \<and> task_id t < task_id u))" for t
  proof
    assume "selectNext store = Some t"
    then obtain rest where o: "order_tasks ?c = t # rest"
      by (auto simp: selectNext_def split: list.splits)
    from order_tasks_head[OF o] have h: "t \<in> set ?c" "\<forall>u\<in>set ?c. comes_first t u" by auto
    from h(1) c have t: "t \<in> set store" "actionable store t" by auto
    have "rank (priority u) < rank (priority t)
          \<or> (rank (priority u) = rank (priority t) \<and> task_id t < task_id u)"
      if u: "u \<in> set store" "actionable store u" "u \<noteq> t" for u
    proof -
      from u c have "u \<in> set ?c" by auto
      then have cf: "comes_first t u" using h(2) by blast
      have "task_id t \<noteq> task_id u" using inj[OF t(1) u(1)] u(3) by auto
      then show ?thesis using cf by (auto simp: comes_first_def)
    qed
    then show "t \<in> set store \<and> actionable store t
              \<and> (\<forall>u\<in>set store. actionable store u \<and> u \<noteq> t \<longrightarrow>
                    rank (priority u) < rank (priority t)
                    \<or> (rank (priority u) = rank (priority t) \<and> task_id t < task_id u))"
      using t by blast
  next
    assume a: "t \<in> set store \<and> actionable store t
              \<and> (\<forall>u\<in>set store. actionable store u \<and> u \<noteq> t \<longrightarrow>
                    rank (priority u) < rank (priority t)
                    \<or> (rank (priority u) = rank (priority t) \<and> task_id t < task_id u))"
    then have tc: "t \<in> set ?c" using c by auto
    then have "?c \<noteq> []" by (metis empty_iff empty_set)
    then have "order_tasks ?c \<noteq> []" by (simp only: order_tasks_Nil not_False_eq_True)
    then obtain h rest where o: "order_tasks ?c = h # rest" by (cases "order_tasks ?c") auto
    from order_tasks_head[OF o] have h: "h \<in> set ?c" "\<forall>u\<in>set ?c. comes_first h u" by auto
    have "h = t"
    proof (rule ccontr)
      assume n: "h \<noteq> t"
      from h(1) c have hs: "h \<in> set store" "actionable store h" by auto
      with a n have "rank (priority h) < rank (priority t)
          \<or> (rank (priority h) = rank (priority t) \<and> task_id t < task_id h)" by blast
      moreover have "comes_first h t" using h(2) tc by blast
      ultimately show False by (auto simp: comes_first_def)
    qed
    then show "selectNext store = Some t" using o by (simp add: selectNext_def)
  qed
qed simp_all

theorem selectNext_is_the_first_actionable_witness:
  "distinct (map task_id scenario_store)
   \<and> selectNext scenario_store = Some (mk_task 2 Medium Todo [1])
   \<and> actionable scenario_store (mk_task 3 Low Todo [])
   \<and> distinct (map task_id tie_store)
   \<and> selectNext tie_store = Some (mk_task 3 High Todo [])"
proof -
  have d1: "distinct (map task_id scenario_store)"
    by (simp add: scenario_store_def mk_task_def)
  have d2: "distinct (map task_id tie_store)"
    by (simp add: tie_store_def mk_task_def)
  have a3: "actionable scenario_store (mk_task 3 Low Todo [])"
    by (simp add: actionable_def mk_task_def)
  have "selectNext scenario_store = Some (mk_task 2 Medium Todo [1])"
    using selectNext_is_the_first_actionable [OF d1]
    by (simp add: scenario_store_def actionable_def mk_task_def)
  moreover have "selectNext tie_store = Some (mk_task 3 High Todo [])"
    using selectNext_is_the_first_actionable [OF d2]
    by (simp add: tie_store_def actionable_def mk_task_def)
  ultimately show ?thesis using d1 d2 a3 by simp
qed


lemma set_dangling_references:
  "set (dangling_references store fromId proposed)
     = {(task_id t, d) | t d. t \<in> set proposed \<and> d \<in> set (dependsOn t)
          \<and> d \<notin> task_id ` {u \<in> set store. task_id u < fromId}
          \<and> d \<notin> task_id ` set proposed}"
  by (auto simp: dangling_references_def past_segment_def)

text \<open>
  C7. \<open>mergeRevision\<close> is all-or-nothing. If some dependency identifier of a proposed
  task resolves neither into the past segment (the tasks with an identifier below
  \<open>fromId\<close>) nor into the proposed list, the result is an integrity error whose references
  are exactly all the violated ones, each as the pair of the proposed task's identifier
  and the identifier that does not resolve, and the store after the call is the store
  before it. If there is no such reference, the store after the call is the past segment
  followed by the proposed list.
\<close>

theorem mergeRevision_all_or_nothing:
  "((\<exists>t\<in>set proposed. \<exists>d\<in>set (dependsOn t).
        d \<notin> task_id ` {u \<in> set store. task_id u < fromId} \<and> d \<notin> task_id ` set proposed)
     \<longrightarrow> (\<exists>refs. mergeRevision store fromId proposed = Inl (IntegrityError refs)
           \<and> set refs = {(task_id t, d) | t d. t \<in> set proposed \<and> d \<in> set (dependsOn t)
                 \<and> d \<notin> task_id ` {u \<in> set store. task_id u < fromId}
                 \<and> d \<notin> task_id ` set proposed}
           \<and> revise_store store fromId proposed = (store, Some (IntegrityError refs))))
   \<and> (\<not> (\<exists>t\<in>set proposed. \<exists>d\<in>set (dependsOn t).
        d \<notin> task_id ` {u \<in> set store. task_id u < fromId} \<and> d \<notin> task_id ` set proposed)
     \<longrightarrow> revise_store store fromId proposed
           = (filter (\<lambda>u. task_id u < fromId) store @ proposed, None))"
proof -
  let ?D = "{(task_id t, d) | t d. t \<in> set proposed \<and> d \<in> set (dependsOn t)
                 \<and> d \<notin> task_id ` {u \<in> set store. task_id u < fromId}
                 \<and> d \<notin> task_id ` set proposed}"
  have s: "set (dangling_references store fromId proposed) = ?D"
    by (rule set_dangling_references)
  have e: "(\<exists>t\<in>set proposed. \<exists>d\<in>set (dependsOn t).
        d \<notin> task_id ` {u \<in> set store. task_id u < fromId} \<and> d \<notin> task_id ` set proposed)
      \<longleftrightarrow> ?D \<noteq> {}"
    by blast
  have n: "dangling_references store fromId proposed = [] \<longleftrightarrow> ?D = {}"
    using s by (metis set_empty)
  show ?thesis
    unfolding e using s n
    by (simp add: mergeRevision_def revise_store_def past_segment_def)
qed

theorem mergeRevision_all_or_nothing_witness:
  "mergeRevision revision_store 5 [mk_task 5 Low Todo [99, 4, 6], mk_task 6 Low Todo [98, 5]]
     = Inl (IntegrityError [(5, 99), (6, 98)])
   \<and> revise_store revision_store 5 [mk_task 5 Low Todo [99, 4, 6], mk_task 6 Low Todo [98, 5]]
       = (revision_store, Some (IntegrityError [(5, 99), (6, 98)]))
   \<and> 99 \<notin> task_id ` set revision_store \<and> 98 \<notin> task_id ` set revision_store"
proof -
  let ?p = "[mk_task 5 Low Todo [99, 4, 6], mk_task 6 Low Todo [98, 5]]"
  have h: "\<exists>t\<in>set ?p. \<exists>d\<in>set (dependsOn t).
        d \<notin> task_id ` {u \<in> set revision_store. task_id u < 5} \<and> d \<notin> task_id ` set ?p"
    by (auto simp: mk_task_def revision_store_def)
  have d: "dangling_references revision_store 5 ?p = [(5, 99), (6, 98)]"
    by (simp add: dangling_references_def past_segment_def revision_store_def mk_task_def)
  from mergeRevision_all_or_nothing [of ?p revision_store 5] h
  obtain refs where r: "mergeRevision revision_store 5 ?p = Inl (IntegrityError refs)"
      "revise_store revision_store 5 ?p = (revision_store, Some (IntegrityError refs))"
    by blast
  have "refs = [(5, 99), (6, 98)]" using r(1) d by (simp add: mergeRevision_def)
  then show ?thesis using r by (simp add: revision_store_def mk_task_def)
qed

end
